theory Spec2Isabelle
  imports Main "HOL-Library.Word"
begin

unbundle bit_operations_syntax

section \<open>Values of the host language\<close>

text \<open>
  The worker of \<^verbatim>\<open>src/index.ts\<close> is embedded function by function. A byte of an
  \<^verbatim>\<open>ArrayBuffer\<close> or \<^verbatim>\<open>Uint8Array\<close> is an 8-bit word; a JavaScript string is the list of
  its UTF-16 code units; a JavaScript number that is an offset, a length or a port is a
  natural number. Inbound frames are binary frames (\<^verbatim>\<open>event.data\<close> is an
  \<^verbatim>\<open>ArrayBuffer\<close>, as the source casts it).
\<close>

type_synonym byte = "8 word"
type_synonym jsstring = "nat list"

definition js :: "string \<Rightarrow> jsstring" where
  "js s = map of_char s"

subsection \<open>Errors\<close>

text \<open>
  Every \<^verbatim>\<open>throw\<close> of the source is a constructor. \<open>RangeError\<close> is what
  \<^verbatim>\<open>DataView.getUint8\<close>, \<^verbatim>\<open>DataView.getUint16\<close> and the \<^verbatim>\<open>Uint8Array\<close> view constructor
  throw when the requested bytes are not inside the buffer (the design document calls it
  TruncatedHeader); \<open>InvalidUUID\<close> is \<^verbatim>\<open>new Error('Invalid UUID')\<close> (InvalidSecret in the
  design document); \<open>TypeError\<close> is what the \<^verbatim>\<open>Request\<close> constructor throws in \<^verbatim>\<open>connect\<close>,
  with the platform's message; the others carry the values interpolated into their
  message.
\<close>

datatype error =
    RangeError
  | UnsupportedVersion byte
  | InvalidUUID
  | UnsupportedCommand byte
  | InvalidAddressType byte
  | TypeError jsstring
  | ConnectFailed jsstring nat jsstring

subsection \<open>Buffer reads\<close>

definition getUint8 :: "byte list \<Rightarrow> nat \<Rightarrow> error + byte" where
  "getUint8 message offset =
     (if offset < length message then Inr (message ! offset) else Inl RangeError)"

definition getUint16 :: "byte list \<Rightarrow> nat \<Rightarrow> error + nat" where
  "getUint16 message offset =
     (if offset + 2 \<le> length message
      then Inr (256 * unat (message ! offset) + unat (message ! (offset + 1)))
      else Inl RangeError)"

text \<open>\<^verbatim>\<open>new Uint8Array(message, offset, len)\<close> and \<^verbatim>\<open>new Uint8Array(message, offset)\<close>.\<close>

definition Uint8Array :: "byte list \<Rightarrow> nat \<Rightarrow> nat \<Rightarrow> error + byte list" where
  "Uint8Array message offset len =
     (if offset + len \<le> length message then Inr (take len (drop offset message))
      else Inl RangeError)"

definition Uint8Array_rest :: "byte list \<Rightarrow> nat \<Rightarrow> error + byte list" where
  "Uint8Array_rest message offset =
     (if offset \<le> length message then Inr (drop offset message) else Inl RangeError)"

subsection \<open>Strings and numbers\<close>

text \<open>\<^verbatim>\<open>String.prototype.substring(start, end)\<close>: the indices are clamped and ordered.\<close>

definition substring :: "jsstring \<Rightarrow> nat \<Rightarrow> nat \<Rightarrow> jsstring" where
  "substring s a b =
     (let lo = min (min a b) (length s); hi = min (max a b) (length s)
      in take (hi - lo) (drop lo s))"

text \<open>The code units \<^verbatim>\<open>parseInt\<close> skips at the start: white space and line terminators.\<close>

definition isWhiteSpace :: "nat \<Rightarrow> bool" where
  "isWhiteSpace c =
     (c \<in> set [9, 10, 11, 12, 13, 32, 160, 5760, 8232, 8233, 8239, 8287, 12288, 65279]
      \<or> (8192 \<le> c \<and> c \<le> 8202))"

definition hexDigitValue :: "nat \<Rightarrow> nat option" where
  "hexDigitValue c =
     (if 48 \<le> c \<and> c \<le> 57 then Some (c - 48)
      else if 97 \<le> c \<and> c \<le> 102 then Some (c - 87)
      else if 65 \<le> c \<and> c \<le> 70 then Some (c - 55)
      else None)"

text \<open>
  \<^verbatim>\<open>parseInt(string, 16)\<close>: leading white space is dropped, then a sign, then a
  \<^verbatim>\<open>0x\<close> prefix; the longest prefix of hexadecimal digits is the value, and
  \<open>None\<close> is \<^verbatim>\<open>NaN\<close> (no digit at all).
\<close>

definition parseInt16 :: "jsstring \<Rightarrow> int option" where
  "parseInt16 string =
     (let S = dropWhile isWhiteSpace string;
          sign = (if S \<noteq> [] \<and> hd S = 45 then - 1 else 1);
          S = (if S \<noteq> [] \<and> (hd S = 43 \<or> hd S = 45) then tl S else S);
          S = (if take 2 S = [48, 120] \<or> take 2 S = [48, 88] then drop 2 S else S);
          Z = takeWhile (\<lambda>c. hexDigitValue c \<noteq> None) S
      in if Z = [] then None
         else Some (sign * int (foldl (\<lambda>n c. 16 * n + the (hexDigitValue c)) 0 Z)))"

text \<open>Storing a number into a \<^verbatim>\<open>Uint8Array\<close> element: \<^verbatim>\<open>NaN\<close> is 0, an integer wraps.\<close>

definition ToUint8 :: "int option \<Rightarrow> byte" where
  "ToUint8 v = (case v of None \<Rightarrow> 0 | Some n \<Rightarrow> word_of_int n)"

definition digitChar :: "nat \<Rightarrow> nat" where
  "digitChar d = (if d < 10 then 48 + d else 87 + d)"

text \<open>\<^verbatim>\<open>Number.prototype.toString(radix)\<close> on a non-negative integer (lowercase digits).\<close>

function numberToString :: "nat \<Rightarrow> nat \<Rightarrow> jsstring" where
  "numberToString radix n =
     (if radix < 2 \<or> n < radix then [digitChar n]
      else numberToString radix (n div radix) @ [digitChar (n mod radix)])"
  by pat_completeness auto
termination
  by (relation "measure (\<lambda>(radix, n). n)") auto

definition padStart :: "jsstring \<Rightarrow> nat \<Rightarrow> nat \<Rightarrow> jsstring" where
  "padStart s targetLength pad =
     (if length s < targetLength then replicate (targetLength - length s) pad @ s else s)"

fun join :: "jsstring \<Rightarrow> jsstring list \<Rightarrow> jsstring" where
  "join sep [] = []"
| "join sep [x] = x"
| "join sep (x # y # ys) = x @ sep @ join sep (y # ys)"

subsection \<open>The UTF-8 decoder of \<^verbatim>\<open>TextDecoder\<close>\<close>

text \<open>
  The decoder of the Encoding standard: the state is the code point under construction,
  the bytes seen and needed, and the bounds of the next continuation byte. A byte that
  cannot continue a sequence ends it with U+FFFD and is read again as a first byte; an
  unfinished sequence at the end of the input gives U+FFFD.
\<close>

function utf8_decode :: "nat \<Rightarrow> nat \<Rightarrow> nat \<Rightarrow> nat \<Rightarrow> nat \<Rightarrow> byte list \<Rightarrow> nat list" where
  "utf8_decode cp seen needed lower upper [] = (if needed \<noteq> 0 then [65533] else [])"
| "utf8_decode cp seen needed lower upper (b # bs) =
     (let x = unat b in
      if needed = 0 then
        (if x \<le> 127 then x # utf8_decode 0 0 0 128 191 bs
         else if 194 \<le> x \<and> x \<le> 223 then utf8_decode (x mod 32) 0 1 128 191 bs
         else if 224 \<le> x \<and> x \<le> 239 then
           utf8_decode (x mod 16) 0 2 (if x = 224 then 160 else 128)
             (if x = 237 then 159 else 191) bs
         else if 240 \<le> x \<and> x \<le> 244 then
           utf8_decode (x mod 8) 0 3 (if x = 240 then 144 else 128)
             (if x = 244 then 143 else 191) bs
         else 65533 # utf8_decode 0 0 0 128 191 bs)
      else if \<not> (lower \<le> x \<and> x \<le> upper) then
        65533 # utf8_decode 0 0 0 128 191 (b # bs)
      else if seen + 1 \<noteq> needed then
        utf8_decode (cp * 64 + x mod 64) (seen + 1) needed 128 191 bs
      else (cp * 64 + x mod 64) # utf8_decode 0 0 0 128 191 bs)"
  by pat_completeness auto
termination
  by (relation "measure (\<lambda>(cp, seen, needed, lower, upper, bs).
        2 * length bs + (if needed = 0 then 0 else 1))") auto

definition utf16_encode :: "nat list \<Rightarrow> jsstring" where
  "utf16_encode cps =
     concat (map (\<lambda>cp. if cp < 65536 then [cp]
                        else [55296 + (cp - 65536) div 1024, 56320 + (cp - 65536) mod 1024]) cps)"

text \<open>\<^verbatim>\<open>new TextDecoder().decode(bytes)\<close>: UTF-8, a leading byte order mark is dropped.\<close>

definition TextDecoder_decode :: "byte list \<Rightarrow> jsstring" where
  "TextDecoder_decode bytes =
     (let bytes = (if take 3 bytes = [239, 187, 191] then drop 3 bytes else bytes)
      in utf16_encode (utf8_decode 0 0 0 128 191 bytes))"

section \<open>Utility functions of the worker\<close>

text \<open>
  \<^verbatim>\<open>uuidToBytes\<close>: the hyphens are removed, a zeroed array of 16 bytes is allocated, and
  element \<open>i\<close> is assigned the parse of the two characters at \<open>2i\<close>.
\<close>

definition uuidToBytes :: "jsstring \<Rightarrow> byte list" where
  "uuidToBytes uuid =
     (let hex = filter (\<lambda>c. c \<noteq> 45) uuid
      in foldl (\<lambda>bytes i. bytes[i := ToUint8 (parseInt16 (substring hex (i * 2) (i * 2 + 2)))])
           (replicate 16 0) [0..<16])"

function compareArrays_loop :: "byte list \<Rightarrow> byte list \<Rightarrow> nat \<Rightarrow> bool" where
  "compareArrays_loop a b i =
     (if i < length a then
        (if a ! i \<noteq> b ! i then False else compareArrays_loop a b (i + 1))
      else True)"
  by pat_completeness auto
termination
  by (relation "measure (\<lambda>(a, b, i). length a - i)") auto

definition compareArrays :: "byte list \<Rightarrow> byte list \<Rightarrow> bool" where
  "compareArrays a b = (if length a \<noteq> length b then False else compareArrays_loop a b 0)"

section \<open>The session state and its effects\<close>

text \<open>
  What a session does is recorded in a trace, oldest effect first. \<open>HeaderParse\<close> marks
  an entry into \<^verbatim>\<open>processVlessHeader\<close>, \<open>CompareArrays\<close> a call of \<^verbatim>\<open>compareArrays\<close>,
  \<open>Connect\<close> a call of \<^verbatim>\<open>connect\<close>, \<open>RemoteWrite k\<close> a chunk written to the writable side of
  the \<open>k\<close>-th outbound socket, \<open>WsSend\<close> a frame sent to the client and \<open>WsClose\<close> a call of
  \<^verbatim>\<open>server.close(code, reason)\<close>.
\<close>

datatype effect =
    HeaderParse "byte list"
  | CompareArrays "byte list" "byte list"
  | Connect jsstring nat
  | RemoteWrite nat "byte list"
  | WsSend "byte list"
  | WsClose nat jsstring

text \<open>
  The platform is outside the repository. In \<^verbatim>\<open>connect\<close>, the constructor
  \<^verbatim>\<open>new Request(url, {method: 'CONNECT', ...})\<close> either returns or throws a type error with a
  message (\<open>request_error\<close>: the message, for the host name and port of the address);
  \<^verbatim>\<open>fetch\<close> of the request either resolves to a socket (given here by the chunks its
  readable side will yield) or rejects with a message, and its outcome may depend on how
  many connections were asked for before.
\<close>

datatype fetch_outcome = Resolved "byte list list" | Rejected jsstring

record platform =
  request_error :: "jsstring \<Rightarrow> nat \<Rightarrow> jsstring option"
  fetch_connect :: "nat \<Rightarrow> jsstring \<Rightarrow> nat \<Rightarrow> fetch_outcome"
  range_error_message :: jsstring

record env =
  UUID :: jsstring
  VLESS_PATH :: jsstring
  PROXY_HOST :: "jsstring option"
  FALLBACK_HOST :: jsstring

record remote_socket =
  sock_id :: nat
  readable :: "byte list list"

text \<open>
  \<open>attempts\<close> counts the calls of \<^verbatim>\<open>connect\<close>; \<open>pipes\<close> lists, in registration order, the
  sockets that an inner \<^verbatim>\<open>message\<close> listener holds and forwards to; \<open>ws_closed\<close> holds once
  \<^verbatim>\<open>server.close\<close> was called.
\<close>

record session =
  trace :: "effect list"
  attempts :: nat
  pipes :: "remote_socket list"
  ws_closed :: bool

definition emit :: "effect \<Rightarrow> session \<Rightarrow> session" where
  "emit e s = s\<lparr>trace := trace s @ [e]\<rparr>"

text \<open>
  \<^verbatim>\<open>connect\<close>: the request is constructed outside the \<^verbatim>\<open>try\<close>, so what its constructor throws
  leaves the function as it is; a rejection of \<^verbatim>\<open>fetch\<close> is caught and thrown again as the
  failed-to-connect error.
\<close>

definition connect :: "platform \<Rightarrow> jsstring \<Rightarrow> nat \<Rightarrow> session \<Rightarrow> (error + remote_socket) \<times> session" where
  "connect pf hostname port s =
     (let k = attempts s;
          s = (emit (Connect hostname port) s)\<lparr>attempts := k + 1\<rparr>
      in case request_error pf hostname port of
           Some msg \<Rightarrow> (Inl (TypeError msg), s)
         | None \<Rightarrow>
             (case fetch_connect pf k hostname port of
                Resolved chunks \<Rightarrow> (Inr \<lparr>sock_id = k, readable = chunks\<rparr>, s)
              | Rejected msg \<Rightarrow> (Inl (ConnectFailed hostname port msg), s)))"

fun error_message :: "platform \<Rightarrow> error \<Rightarrow> jsstring" where
  "error_message pf RangeError = range_error_message pf"
| "error_message pf (UnsupportedVersion version) =
     js ''Unsupported VLESS version: '' @ numberToString 10 (unat version)"
| "error_message pf InvalidUUID = js ''Invalid UUID''"
| "error_message pf (UnsupportedCommand command) =
     js ''Unsupported command: '' @ numberToString 10 (unat command)"
| "error_message pf (InvalidAddressType addressType) =
     js ''Invalid address type: '' @ numberToString 10 (unat addressType)"
| "error_message pf (TypeError msg) = msg"
| "error_message pf (ConnectFailed hostname port msg) =
     js ''Failed to connect to '' @ hostname @ js '':'' @ numberToString 10 port
       @ js '': '' @ msg"

section \<open>The header parser\<close>

definition ipv6_step :: "jsstring \<Rightarrow> byte \<times> nat \<Rightarrow> jsstring" where
  "ipv6_step str bi =
     (let byte = fst bi; i = snd bi;
          str = (if i mod 2 = 0 then str @ (if i = 0 then [] else js '':'') else str)
      in str @ padStart (numberToString 16 (unat byte)) 2 48)"

text \<open>The \<^verbatim>\<open>switch (addressType)\<close> of \<^verbatim>\<open>processVlessHeader\<close>: the host and the new offset.\<close>

definition decodeAddress :: "byte list \<Rightarrow> nat \<Rightarrow> byte \<Rightarrow> error + (jsstring \<times> nat)" where
  "decodeAddress message offset addressType =
     (if addressType = 1 then
        (case Uint8Array message offset 4 of
           Inl e \<Rightarrow> Inl e
         | Inr bs \<Rightarrow> Inr (join (js ''.'') (map (\<lambda>b. numberToString 10 (unat b)) bs), offset + 4))
      else if addressType = 2 then
        (case getUint8 message offset of
           Inl e \<Rightarrow> Inl e
         | Inr domainLength \<Rightarrow>
             (let offset = offset + 1 in
              case Uint8Array message offset (unat domainLength) of
                Inl e \<Rightarrow> Inl e
              | Inr bs \<Rightarrow> Inr (TextDecoder_decode bs, offset + unat domainLength)))
      else if addressType = 3 then
        (case Uint8Array message offset 16 of
           Inl e \<Rightarrow> Inl e
         | Inr ipv6Bytes \<Rightarrow>
             Inr (foldl ipv6_step [] (zip ipv6Bytes [0..<length ipv6Bytes]), offset + 16))
      else Inl (InvalidAddressType addressType))"

record header =
  hdr_host :: jsstring
  hdr_port :: nat
  hdr_offset :: nat

text \<open>
  The first part of \<^verbatim>\<open>processVlessHeader\<close>, from the \<^verbatim>\<open>DataView\<close> to the end of the
  \<^verbatim>\<open>switch\<close>: the decoded host, the port and the offset reached, or the error thrown.
\<close>

definition readHeader :: "env \<Rightarrow> byte list \<Rightarrow> session \<Rightarrow> (error + header) \<times> session" where
  "readHeader env message s =
     (let offset = 0 in
      case getUint8 message offset of
        Inl e \<Rightarrow> (Inl e, s)
      | Inr version \<Rightarrow>
      (let offset = offset + 1 in
       if version \<noteq> 0 then (Inl (UnsupportedVersion version), s)
       else
      (case Uint8Array message offset 16 of
        Inl e \<Rightarrow> (Inl e, s)
      | Inr receivedUuid \<Rightarrow>
      (let offset = offset + 16;
           expectedUuid = uuidToBytes (UUID env);
           s = emit (CompareArrays receivedUuid expectedUuid) s in
       if \<not> compareArrays receivedUuid expectedUuid then (Inl InvalidUUID, s)
       else
      (case getUint8 message offset of
        Inl e \<Rightarrow> (Inl e, s)
      | Inr addonsLength \<Rightarrow>
      (let offset = offset + 1;
           offset = offset + unat addonsLength in
      (case getUint8 message offset of
        Inl e \<Rightarrow> (Inl e, s)
      | Inr command \<Rightarrow>
      (let offset = offset + 1 in
       if command \<noteq> 1 then (Inl (UnsupportedCommand command), s)
       else
      (case getUint16 message offset of
        Inl e \<Rightarrow> (Inl e, s)
      | Inr port \<Rightarrow>
      (let offset = offset + 2 in
      (case getUint8 message offset of
        Inl e \<Rightarrow> (Inl e, s)
      | Inr addressType \<Rightarrow>
      (let offset = offset + 1 in
      (case decodeAddress message offset addressType of
        Inl e \<Rightarrow> (Inl e, s)
      | Inr (host, offset) \<Rightarrow>
          (Inr \<lparr>hdr_host = host, hdr_port = port, hdr_offset = offset\<rparr>, s))))))))))))))"

record vless_result =
  remoteSocket :: remote_socket
  host :: jsstring
  port :: nat
  rawVlessHeader :: "byte list"

text \<open>
  \<^verbatim>\<open>processVlessHeader\<close>: the header is read, the host is replaced by \<^verbatim>\<open>PROXY_HOST\<close> when
  that is set and differs, the header and payload views are made, the outbound socket
  is opened and the payload is written to it.
\<close>

definition processVlessHeader ::
    "platform \<Rightarrow> env \<Rightarrow> byte list \<Rightarrow> session \<Rightarrow> (error + vless_result) \<times> session" where
  "processVlessHeader pf env message s =
     (let s = emit (HeaderParse message) s in
      case readHeader env message s of
        (Inl e, s) \<Rightarrow> (Inl e, s)
      | (Inr h, s) \<Rightarrow>
      (let host = hdr_host h; port = hdr_port h; offset = hdr_offset h;
           host = (case PROXY_HOST env of
                     None \<Rightarrow> host
                   | Some proxy \<Rightarrow> (if proxy \<noteq> [] \<and> host \<noteq> proxy then proxy else host)) in
      (case Uint8Array message 0 offset of
        Inl e \<Rightarrow> (Inl e, s)
      | Inr raw \<Rightarrow>
      (case Uint8Array_rest message offset of
        Inl e \<Rightarrow> (Inl e, s)
      | Inr data \<Rightarrow>
      (case connect pf host port s of
        (Inl e, s) \<Rightarrow> (Inl e, s)
      | (Inr sock, s) \<Rightarrow>
      (let s = emit (RemoteWrite (sock_id sock) data) s in
       (Inr \<lparr>remoteSocket = sock, host = host, port = port, rawVlessHeader = raw\<rparr>, s)))))))"

section \<open>The WebSocket handler\<close>

record request =
  upgrade :: "string option"

record response =
  status :: nat
  body :: "string option"
  webSocket :: bool

text \<open>
  \<^verbatim>\<open>toLowerCase\<close> on a header value, whose characters are single bytes: the ASCII capitals
  and the Latin-1 capitals move by 32.
\<close>

definition toLowerCase :: "string \<Rightarrow> string" where
  "toLowerCase s =
     map (\<lambda>c. let n = (of_char c :: nat)
               in if (65 \<le> n \<and> n \<le> 90) \<or> (192 \<le> n \<and> n \<le> 222 \<and> n \<noteq> 215)
                  then char_of (n + 32) else c) s"

text \<open>The server end of a new socket pair, after \<^verbatim>\<open>server.accept()\<close>: nothing has happened on it.\<close>

definition fresh :: session where
  "fresh = \<lparr>trace = [], attempts = 0, pipes = [], ws_closed = False\<rparr>"

text \<open>
  \<^verbatim>\<open>handleVless\<close> up to its \<^verbatim>\<open>return\<close>: the 426 response, or the 101 response together with
  the accepted server socket. What its listeners do on the frames that arrive later is
  \<open>on_message\<close> below.
\<close>

definition handleVless :: "request \<Rightarrow> response \<times> session option" where
  "handleVless request =
     (let upgradeHeader = upgrade request in
      if upgradeHeader = None \<or> upgradeHeader = Some []
         \<or> toLowerCase (the upgradeHeader) \<noteq> ''websocket''
      then (\<lparr>status = 426, body = Some ''Expected a WebSocket Upgrade request'',
              webSocket = False\<rparr>, None)
      else (\<lparr>status = 101, body = None, webSocket = True\<rparr>,
            Some fresh))"

definition server_close :: "nat \<Rightarrow> jsstring \<Rightarrow> session \<Rightarrow> session" where
  "server_close code reason s = (emit (WsClose code reason) s)\<lparr>ws_closed := True\<rparr>"

text \<open>
  The listener that \<^verbatim>\<open>handleVless\<close> registers for \<^verbatim>\<open>message\<close> events: it calls
  \<^verbatim>\<open>processVlessHeader\<close> on the frame; on success it registers one more listener that
  feeds the later frames to the new socket, and on an error it closes the server socket
  with code 1011 and the error's message.
\<close>

definition message_listener :: "platform \<Rightarrow> env \<Rightarrow> byte list \<Rightarrow> session \<Rightarrow> session" where
  "message_listener pf env message s =
     (case processVlessHeader pf env message s of
        (Inr r, s) \<Rightarrow> s\<lparr>pipes := pipes s @ [remoteSocket r]\<rparr>
      | (Inl e, s) \<Rightarrow> server_close 1011 (error_message pf e) s)"

text \<open>
  The inner listener with its stream: \<^verbatim>\<open>controller.enqueue(e.data)\<close>, which
  \<^verbatim>\<open>pipeTo\<close> writes to the socket.
\<close>

definition pipe_listener :: "remote_socket \<Rightarrow> byte list \<Rightarrow> session \<Rightarrow> session" where
  "pipe_listener sock data s = emit (RemoteWrite (sock_id sock) data) s"

text \<open>
  One \<^verbatim>\<open>message\<close> event that the platform dispatches on the server socket: the listeners
  registered before the event run in registration order, the listener of \<^verbatim>\<open>handleVless\<close>
  first. No listener is ever removed and none looks at the state of the socket, so a
  frame that the platform still delivers after \<^verbatim>\<open>server.close\<close> is handled like any
  other. The promises of one event are taken to settle before the next event is
  dispatched (so the connection of a frame is open, and its forwarding listener
  registered, when the next frame comes), and a write to an outbound socket to succeed.
\<close>

definition on_message :: "platform \<Rightarrow> env \<Rightarrow> byte list \<Rightarrow> session \<Rightarrow> session" where
  "on_message pf env message s =
     (let listeners = pipes s;
          s = message_listener pf env message s
      in foldl (\<lambda>s sock. pipe_listener sock message s) s listeners)"

text \<open>The frames of a session are the \<^verbatim>\<open>message\<close> events dispatched on its server socket, in order.\<close>

definition run_session :: "platform \<Rightarrow> env \<Rightarrow> byte list list \<Rightarrow> session \<Rightarrow> session" where
  "run_session pf env frames s = foldl (\<lambda>s message. on_message pf env message s) s frames"

subsection \<open>Reading a trace\<close>

definition header_parses :: "effect list \<Rightarrow> byte list list" where
  "header_parses t = concat (map (\<lambda>e. case e of HeaderParse m \<Rightarrow> [m] | _ \<Rightarrow> []) t)"

definition comparisons :: "effect list \<Rightarrow> (byte list \<times> byte list) list" where
  "comparisons t = concat (map (\<lambda>e. case e of CompareArrays a b \<Rightarrow> [(a, b)] | _ \<Rightarrow> []) t)"

definition connects :: "effect list \<Rightarrow> (jsstring \<times> nat) list" where
  "connects t = concat (map (\<lambda>e. case e of Connect h p \<Rightarrow> [(h, p)] | _ \<Rightarrow> []) t)"

definition outbound :: "nat \<Rightarrow> effect list \<Rightarrow> byte list list" where
  "outbound k t =
     concat (map (\<lambda>e. case e of RemoteWrite j d \<Rightarrow> if j = k then [d] else [] | _ \<Rightarrow> []) t)"

definition client_frames :: "effect list \<Rightarrow> byte list list" where
  "client_frames t = concat (map (\<lambda>e. case e of WsSend d \<Rightarrow> [d] | _ \<Rightarrow> []) t)"

definition closes :: "effect list \<Rightarrow> (nat \<times> jsstring) list" where
  "closes t = concat (map (\<lambda>e. case e of WsClose c r \<Rightarrow> [(c, r)] | _ \<Rightarrow> []) t)"

section \<open>The design document's wording\<close>

text \<open>
  Definitions that follow the words of the design document, and of the standards it
  names, to be compared with the functions above.
\<close>

text \<open>A byte in decimal, written out digit by digit, and four of them joined by dots.\<close>

definition spec_decimal :: "byte \<Rightarrow> jsstring" where
  "spec_decimal b =
     (let n = unat b in
      if n < 10 then [48 + n]
      else if n < 100 then [48 + n div 10, 48 + n mod 10]
      else [48 + n div 100, 48 + (n div 10) mod 10, 48 + n mod 10])"

definition spec_ipv4_text :: "byte list \<Rightarrow> jsstring" where
  "spec_ipv4_text bs =
     spec_decimal (bs ! 0) @ js ''.'' @ spec_decimal (bs ! 1) @ js ''.''
       @ spec_decimal (bs ! 2) @ js ''.'' @ spec_decimal (bs ! 3)"

text \<open>
  A byte as two lowercase hexadecimal digits; a group is two bytes, and the address is
  its eight groups separated by colons.
\<close>

definition spec_hex2 :: "byte \<Rightarrow> jsstring" where
  "spec_hex2 b = map (\<lambda>d. of_char (''0123456789abcdef'' ! d)) [unat b div 16, unat b mod 16]"

definition spec_ipv6_text :: "byte list \<Rightarrow> jsstring" where
  "spec_ipv6_text bs =
     join (js '':'') (map (\<lambda>g. spec_hex2 (bs ! (2 * g)) @ spec_hex2 (bs ! (2 * g + 1))) [0..<8])"

text \<open>The length of the address form: 4 for IPv4, 1 + L for a domain, 16 for IPv6.\<close>

definition spec_addressLength :: "byte list \<Rightarrow> nat \<Rightarrow> byte \<Rightarrow> nat" where
  "spec_addressLength message offset kind =
     (if kind = 1 then 4 else if kind = 2 then 1 + unat (message ! offset) else 16)"

text \<open>
  A frame is truncated when it ends before the bytes that a parsing step needs, the
  steps before it having accepted what they read: version, secret, addons length,
  addons and command, port, address kind, address bytes.
\<close>

definition spec_truncated :: "env \<Rightarrow> byte list \<Rightarrow> bool" where
  "spec_truncated env m =
     (if length m < 1 then True
      else if m ! 0 \<noteq> 0 then False
      else if length m < 17 then True
      else if take 16 (drop 1 m) \<noteq> uuidToBytes (UUID env) then False
      else if length m < 18 then True
      else if length m < 19 + unat (m ! 17) then True
      else if m ! (18 + unat (m ! 17)) \<noteq> 1 then False
      else if length m < 21 + unat (m ! 17) then True
      else if length m < 22 + unat (m ! 17) then True
      else if m ! (21 + unat (m ! 17)) = 1 then length m < 26 + unat (m ! 17)
      else if m ! (21 + unat (m ! 17)) = 2 then
             (length m < 23 + unat (m ! 17)
              \<or> length m < 23 + unat (m ! 17) + unat (m ! (22 + unat (m ! 17))))
      else if m ! (21 + unat (m ! 17)) = 3 then length m < 38 + unat (m ! 17)
      else False)"

text \<open>
  UTF-8 as the standard defines it: a Unicode scalar value is written in one to four
  bytes. A text is a list of scalar values.
\<close>

definition unicode_scalar :: "nat \<Rightarrow> bool" where
  "unicode_scalar cp = (cp < 1114112 \<and> \<not> (55296 \<le> cp \<and> cp \<le> 57343))"

definition spec_utf8_encode_cp :: "nat \<Rightarrow> byte list" where
  "spec_utf8_encode_cp cp =
     (if cp < 128 then [of_nat cp]
      else if cp < 2048 then [of_nat (192 + cp div 64), of_nat (128 + cp mod 64)]
      else if cp < 65536 then
        [of_nat (224 + cp div 4096), of_nat (128 + (cp div 64) mod 64), of_nat (128 + cp mod 64)]
      else
        [of_nat (240 + cp div 262144), of_nat (128 + (cp div 4096) mod 64),
         of_nat (128 + (cp div 64) mod 64), of_nat (128 + cp mod 64)])"

definition spec_utf8_encode :: "nat list \<Rightarrow> byte list" where
  "spec_utf8_encode cps = concat (map spec_utf8_encode_cp cps)"

text \<open>
  A value of the \<^verbatim>\<open>Upgrade\<close> header names the WebSocket protocol when it spells
  \<^verbatim>\<open>websocket\<close> in ASCII letters of either case.
\<close>

definition spec_is_websocket :: "string \<Rightarrow> bool" where
  "spec_is_websocket v =
     list_all2 (\<lambda>c d. c = d \<or> (of_char c :: nat) + 32 = of_char d) v ''websocket''"

subsection \<open>An invariant of sessions\<close>

text \<open>
  A session is well formed when the sockets its listeners hold were opened by earlier
  calls of \<^verbatim>\<open>connect\<close>, each by its own call. Every session that starts from an accepted
  socket is.
\<close>

definition wf_session :: "session \<Rightarrow> bool" where
  "wf_session s =
     (list_all (\<lambda>sock. sock_id sock < attempts s) (pipes s) \<and> distinct (map sock_id (pipes s)))"

section \<open>A sample configuration\<close>

text \<open>
  A concrete environment, platform and frames, on which the statements below are
  evaluated: the secret is \<^verbatim>\<open>00112233-4455-6677-8899-aabbccddeeff\<close>, every request is
  constructed, every connection is established and its readable side would yield the
  single chunk \<open>[65]\<close>.
\<close>

definition demo_uuid :: jsstring where
  "demo_uuid = js ''00112233-4455-6677-8899-aabbccddeeff''"

definition demo_secret :: "byte list" where
  "demo_secret = [0, 17, 34, 51, 68, 85, 102, 119, 136, 153, 170, 187, 204, 221, 238, 255]"

definition demo_env :: env where
  "demo_env = \<lparr>UUID = demo_uuid, VLESS_PATH = js ''/tunnel'', PROXY_HOST = None,
                FALLBACK_HOST = js ''https://example.org''\<rparr>"

definition pinned_env :: env where
  "pinned_env = \<lparr>UUID = demo_uuid, VLESS_PATH = js ''/tunnel'',
                  PROXY_HOST = Some (js ''egress.example''),
                  FALLBACK_HOST = js ''https://example.org''\<rparr>"

definition always_resolved :: "nat \<Rightarrow> jsstring \<Rightarrow> nat \<Rightarrow> fetch_outcome" where
  "always_resolved k hostname p = Resolved [[65]]"

definition request_accepted :: "jsstring \<Rightarrow> nat \<Rightarrow> jsstring option" where
  "request_accepted hostname p = None"

definition demo_platform :: platform where
  "demo_platform = \<lparr>request_error = request_accepted, fetch_connect = always_resolved,
                     range_error_message = js ''Offset is outside the bounds of the DataView''\<rparr>"

text \<open>Version 0, the secret, no addons, command 1, port 443, IPv4 address 1.2.3.4.\<close>

definition ipv4_header :: "byte list" where
  "ipv4_header = [0] @ demo_secret @ [0, 1, 1, 187, 1, 1, 2, 3, 4]"

text \<open>The same with two addon bytes and the domain \<^verbatim>\<open>example.org\<close> (length 11).\<close>

definition domain_header :: "byte list" where
  "domain_header = [0] @ demo_secret @ [2, 9, 9, 1, 1, 187, 2, 11,
                     101, 120, 97, 109, 112, 108, 101, 46, 111, 114, 103]"

text \<open>The same with the IPv6 address whose last byte is 1 and the others 0.\<close>

definition ipv6_header :: "byte list" where
  "ipv6_header = [0] @ demo_secret @ [0, 1, 1, 187, 3,
                     0, 0, 0, 0, 0, 0, 0, 0, 0, 0, 0, 0, 0, 0, 0, 1]"

text \<open>The IPv4 frame with the fifth byte of its secret changed.\<close>

definition wrong_secret_frame :: "byte list" where
  "wrong_secret_frame = ipv4_header[5 := 0]"

text \<open>
  Sixteen bytes to read as an address: the length byte 11, the name \<^verbatim>\<open>example.org\<close>, and
  four more bytes.
\<close>

definition address_bytes :: "byte list" where
  "address_bytes = [11, 101, 120, 97, 109, 112, 108, 101, 46, 111, 114, 103, 7, 7, 7, 7]"

text \<open>A string that is no UUID: some of its pairs cannot be read, and most are missing.\<close>

definition odd_uuid :: jsstring where
  "odd_uuid = js ''zz-1g +f0x''"

section \<open>Facts about the utility functions\<close>

lemma trace_emit: "trace (emit e s) = trace s @ [e]" by (simp add: emit_def)
lemma attempts_emit: "attempts (emit e s) = attempts s" by (simp add: emit_def)
lemma pipes_emit: "pipes (emit e s) = pipes s" by (simp add: emit_def)
lemma ws_closed_emit: "ws_closed (emit e s) = ws_closed s" by (simp add: emit_def)

lemma compareArrays_loop_drop:
  "i \<le> length a \<Longrightarrow> length a = length b \<Longrightarrow> compareArrays_loop a b i = (drop i a = drop i b)"
proof (induction a b i rule: compareArrays_loop.induct)
  case (1 a b i)
  show ?case
  proof (cases "i < length a")
    case True
    then have da: "drop i a = a ! i # drop (Suc i) a" and db: "drop i b = b ! i # drop (Suc i) b"
      using 1 by (simp_all add: Cons_nth_drop_Suc)
    show ?thesis
    proof (cases "a ! i = b ! i")
      case same: True
      have "compareArrays_loop a b i = compareArrays_loop a b (i + 1)"
        using True same by (subst compareArrays_loop.simps) simp
      also have "\<dots> = (drop (i + 1) a = drop (i + 1) b)"
        using 1 True same by simp
      finally show ?thesis using da db same by simp
    next
      case False
      then show ?thesis using True da db by (subst compareArrays_loop.simps) simp
    qed
  next
    case False
    then show ?thesis using 1 by (subst compareArrays_loop.simps) simp
  qed
qed

lemma compareArrays_eq: "compareArrays a b = (a = b)"
  using compareArrays_loop_drop [of 0 a b] by (auto simp: compareArrays_def)

lemma uuid_fold:
  "n \<le> length bs \<Longrightarrow> foldl (\<lambda>bytes i. bytes[i := f i]) bs [0..<n] = map f [0..<n] @ drop n bs"
proof (induction n)
  case 0
  then show ?case by simp
next
  case (Suc n)
  then have "foldl (\<lambda>bytes i. bytes[i := f i]) bs [0..<Suc n] = (map f [0..<n] @ drop n bs)[n := f n]"
    by simp
  also have "\<dots> = map f [0..<n] @ (drop n bs)[0 := f n]"
    by (simp add: list_update_append)
  also have "(drop n bs)[0 := f n] = f n # drop (Suc n) bs"
    using Suc.prems by (metis Cons_nth_drop_Suc Suc_le_lessD list_update_code(2))
  finally show ?case by simp
qed

lemma uuidToBytes_map:
  "uuidToBytes uuid =
     map (\<lambda>i. ToUint8 (parseInt16 (substring (filter (\<lambda>c. c \<noteq> 45) uuid) (i * 2) (i * 2 + 2)))) [0..<16]"
  unfolding uuidToBytes_def Let_def by (subst uuid_fold) simp_all

lemma length_uuidToBytes: "length (uuidToBytes uuid) = 16"
  by (simp add: uuidToBytes_map)

lemma demo_uuid_bytes: "uuidToBytes demo_uuid = demo_secret"
  by (simp add: uuidToBytes_map demo_uuid_def demo_secret_def js_def substring_def parseInt16_def isWhiteSpace_def hexDigitValue_def ToUint8_def upt_rec)

section \<open>Facts about the header parser\<close>

lemma readHeader_state:
  "snd (readHeader env m s) =
     (if 17 \<le> length m \<and> m ! 0 = 0
      then emit (CompareArrays (take 16 (drop 1 m)) (uuidToBytes (UUID env))) s else s)"
  by (auto simp: readHeader_def Let_def getUint8_def getUint16_def Uint8Array_def
      split: sum.splits prod.splits)

lemma readHeader_Inr_iff:
  "readHeader env m s = (Inr h, s') \<longleftrightarrow>
     17 < length m \<and> m ! 0 = 0 \<and> take 16 (drop 1 m) = uuidToBytes (UUID env)
     \<and> 21 + unat (m ! 17) < length m \<and> m ! (18 + unat (m ! 17)) = 1
     \<and> decodeAddress m (22 + unat (m ! 17)) (m ! (21 + unat (m ! 17))) = Inr (hdr_host h, hdr_offset h)
     \<and> hdr_port h = 256 * unat (m ! (19 + unat (m ! 17))) + unat (m ! (20 + unat (m ! 17)))
     \<and> s' = emit (CompareArrays (take 16 (drop 1 m)) (uuidToBytes (UUID env))) s"
  by (auto simp: readHeader_def Let_def getUint8_def getUint16_def Uint8Array_def compareArrays_eq
      add.commute
      split: sum.splits prod.splits)

lemma decodeAddress_Inr_iff:
  "decodeAddress m off k = Inr (h, off') \<longleftrightarrow>
     (k = 1 \<and> off + 4 \<le> length m \<and> off' = off + 4
        \<and> h = join (js ''.'') (map (\<lambda>b. numberToString 10 (unat b)) (take 4 (drop off m))))
   \<or> (k = 2 \<and> off < length m \<and> off + 1 + unat (m ! off) \<le> length m
        \<and> off' = off + 1 + unat (m ! off)
        \<and> h = TextDecoder_decode (take (unat (m ! off)) (drop (off + 1) m)))
   \<or> (k = 3 \<and> off + 16 \<le> length m \<and> off' = off + 16
        \<and> h = foldl ipv6_step [] (zip (take 16 (drop off m)) [0..<length (take 16 (drop off m))]))"
  by (auto simp: decodeAddress_def Let_def getUint8_def Uint8Array_def min_def
      split: sum.splits)

lemma decodeAddress_offset:
  assumes "decodeAddress m off k = Inr (h, off')"
  shows "off' = off + spec_addressLength m off k" and "off' \<le> length m"
    and "k = 1 \<or> k = 2 \<or> k = 3"
  using assms by (auto simp: decodeAddress_Inr_iff spec_addressLength_def)

lemma decodeAddress_total:
  assumes "k = 1 \<or> k = 2 \<or> k = 3" and "off + spec_addressLength m off k \<le> length m"
  shows "\<exists>h. decodeAddress m off k = Inr (h, off + spec_addressLength m off k)"
  using assms by (auto simp: decodeAddress_Inr_iff spec_addressLength_def)

lemma readHeader_offset_le:
  "readHeader env m s = (Inr h, s') \<Longrightarrow> hdr_offset h \<le> length m"
  by (auto simp: readHeader_Inr_iff dest: decodeAddress_offset(2))

text \<open>What \<^verbatim>\<open>processVlessHeader\<close> does once the header has been read.\<close>

lemma processVlessHeader_parsed:
  assumes "readHeader env m (emit (HeaderParse m) s) = (Inr h, s1)"
  shows "processVlessHeader pf env m s =
     (let H = (case PROXY_HOST env of
                 None \<Rightarrow> hdr_host h
               | Some proxy \<Rightarrow> if proxy \<noteq> [] \<and> hdr_host h \<noteq> proxy then proxy else hdr_host h);
          s2 = (emit (Connect H (hdr_port h)) s1)\<lparr>attempts := attempts s + 1\<rparr>
      in case request_error pf H (hdr_port h) of
           Some msg \<Rightarrow> (Inl (TypeError msg), s2)
         | None \<Rightarrow>
         (case fetch_connect pf (attempts s) H (hdr_port h) of
           Resolved chunks \<Rightarrow>
             (Inr \<lparr>remoteSocket = \<lparr>sock_id = attempts s, readable = chunks\<rparr>, host = H,
                    port = hdr_port h, rawVlessHeader = take (hdr_offset h) m\<rparr>,
              emit (RemoteWrite (attempts s) (drop (hdr_offset h) m)) s2)
         | Rejected msg \<Rightarrow> (Inl (ConnectFailed H (hdr_port h) msg), s2)))"
proof -
  have le: "hdr_offset h \<le> length m"
    using assms by (rule readHeader_offset_le)
  have att: "attempts s1 = attempts s"
    using assms by (simp add: readHeader_Inr_iff attempts_emit)
  show ?thesis
    using le att
    by (simp add: processVlessHeader_def assms Let_def Uint8Array_def Uint8Array_rest_def
        connect_def split: fetch_outcome.splits option.splits)
qed

lemma processVlessHeader_failed:
  assumes "readHeader env m (emit (HeaderParse m) s) = (Inl e, s1)"
  shows "processVlessHeader pf env m s = (Inl e, s1)"
  using assms by (simp add: processVlessHeader_def Let_def)

lemma readHeader_fst:
  "fst (readHeader env m s) = Inr h \<longleftrightarrow>
     17 < length m \<and> m ! 0 = 0 \<and> take 16 (drop 1 m) = uuidToBytes (UUID env)
     \<and> 21 + unat (m ! 17) < length m \<and> m ! (18 + unat (m ! 17)) = 1
     \<and> decodeAddress m (22 + unat (m ! 17)) (m ! (21 + unat (m ! 17))) = Inr (hdr_host h, hdr_offset h)
     \<and> hdr_port h = 256 * unat (m ! (19 + unat (m ! 17))) + unat (m ! (20 + unat (m ! 17)))"
proof -
  have "fst (readHeader env m s) = Inr h \<longleftrightarrow> (\<exists>s'. readHeader env m s = (Inr h, s'))"
    by (cases "readHeader env m s") auto
  then show ?thesis
    by (simp add: readHeader_Inr_iff)
qed

lemma readHeader_fst_any: "fst (readHeader env m s) = fst (readHeader env m s')"
proof (cases "fst (readHeader env m s)")
  case (Inr h)
  then have "fst (readHeader env m s') = Inr h"
    by (simp add: readHeader_fst)
  with Inr show ?thesis by simp
next
  case (Inl e)
  show ?thesis
  proof (cases "fst (readHeader env m s')")
    case (Inr h)
    then have "fst (readHeader env m s) = Inr h"
      by (simp add: readHeader_fst)
    with Inl show ?thesis by simp
  next
    case Inl': (Inl e')
    have "e = e'"
      using Inl Inl'
      by (auto simp: readHeader_def Let_def getUint8_def getUint16_def Uint8Array_def
          split: sum.splits prod.splits if_splits)
    with Inl Inl' show ?thesis by simp
  qed
qed

lemma readHeader_pair:
  "readHeader env m s = (fst (readHeader env m s'), snd (readHeader env m s))"
  by (metis prod.collapse readHeader_fst_any)

lemma comparisons_append: "comparisons (t @ u) = comparisons t @ comparisons u"
  by (simp add: comparisons_def)
lemma connects_append: "connects (t @ u) = connects t @ connects u"
  by (simp add: connects_def)
lemma header_parses_append: "header_parses (t @ u) = header_parses t @ header_parses u"
  by (simp add: header_parses_def)
lemma outbound_append: "outbound k (t @ u) = outbound k t @ outbound k u"
  by (simp add: outbound_def)
lemma client_frames_append: "client_frames (t @ u) = client_frames t @ client_frames u"
  by (simp add: client_frames_def)
lemma closes_append: "closes (t @ u) = closes t @ closes u"
  by (simp add: closes_def)

lemma processVlessHeader_eq:
  "processVlessHeader pf env m s =
     (case fst (readHeader env m s) of
        Inl e \<Rightarrow> (Inl e, snd (readHeader env m (emit (HeaderParse m) s)))
      | Inr h \<Rightarrow>
         (let H = (case PROXY_HOST env of
                     None \<Rightarrow> hdr_host h
                   | Some proxy \<Rightarrow> if proxy \<noteq> [] \<and> hdr_host h \<noteq> proxy then proxy else hdr_host h);
              s2 = (emit (Connect H (hdr_port h)) (snd (readHeader env m (emit (HeaderParse m) s))))
                     \<lparr>attempts := attempts s + 1\<rparr>
          in case request_error pf H (hdr_port h) of
               Some msg \<Rightarrow> (Inl (TypeError msg), s2)
             | None \<Rightarrow>
             (case fetch_connect pf (attempts s) H (hdr_port h) of
               Resolved chunks \<Rightarrow>
                 (Inr \<lparr>remoteSocket = \<lparr>sock_id = attempts s, readable = chunks\<rparr>, host = H,
                        port = hdr_port h, rawVlessHeader = take (hdr_offset h) m\<rparr>,
                  emit (RemoteWrite (attempts s) (drop (hdr_offset h) m)) s2)
             | Rejected msg \<Rightarrow> (Inl (ConnectFailed H (hdr_port h) msg), s2))))"
proof (cases "fst (readHeader env m s)")
  case (Inl e)
  then have "readHeader env m (emit (HeaderParse m) s)
      = (Inl e, snd (readHeader env m (emit (HeaderParse m) s)))"
    using readHeader_pair [of env m "emit (HeaderParse m) s" s] by simp
  then show ?thesis
    using Inl by (simp add: processVlessHeader_failed)
next
  case (Inr h)
  then have "readHeader env m (emit (HeaderParse m) s)
      = (Inr h, snd (readHeader env m (emit (HeaderParse m) s)))"
    using readHeader_pair [of env m "emit (HeaderParse m) s" s] by simp
  then show ?thesis
    using Inr by (simp add: processVlessHeader_parsed)
qed

section \<open>The version check\<close>

lemma readHeader_bad_version:
  assumes "m \<noteq> []" and "m ! 0 \<noteq> 0"
  shows "readHeader env m s = (Inl (UnsupportedVersion (m ! 0)), s)"
  using assms by (simp add: readHeader_def getUint8_def)

text \<open>
  C8. A first frame whose version byte is not 0 makes \<^verbatim>\<open>processVlessHeader\<close> throw the
  unsupported-version error carrying that byte, and \<^verbatim>\<open>compareArrays\<close> is not called on the
  way: the comparisons recorded in the trace are those recorded before. No connection
  is asked for either.
\<close>

theorem version_rejected_before_secret:
  assumes "m \<noteq> []" and "m ! 0 \<noteq> 0"
  shows "fst (processVlessHeader pf env m s) = Inl (UnsupportedVersion (m ! 0))
       \<and> comparisons (trace (snd (processVlessHeader pf env m s))) = comparisons (trace s)
       \<and> connects (trace (snd (processVlessHeader pf env m s))) = connects (trace s)"
proof -
  have "processVlessHeader pf env m s = (Inl (UnsupportedVersion (m ! 0)), emit (HeaderParse m) s)"
    using assms by (simp add: processVlessHeader_failed readHeader_bad_version)
  then show ?thesis
    by (simp add: trace_emit comparisons_def connects_def)
qed

theorem version_rejected_before_secret_witness:
  "ipv4_header[0 := 1] \<noteq> [] \<and> (ipv4_header[0 := 1]) ! 0 \<noteq> 0
   \<and> fst (processVlessHeader demo_platform demo_env (ipv4_header[0 := 1]) fresh)
       = Inl (UnsupportedVersion 1)
   \<and> comparisons (trace (snd (processVlessHeader demo_platform demo_env (ipv4_header[0 := 1]) fresh))) = []"
proof -
  have a: "ipv4_header[0 := 1] \<noteq> []" and b: "(ipv4_header[0 := 1]) ! 0 \<noteq> 0"
    and c: "(ipv4_header[0 := 1]) ! 0 = 1"
    by (simp_all add: ipv4_header_def)
  have d: "comparisons (trace fresh) = []"
    by (simp add: fresh_def comparisons_def)
  show ?thesis
    using version_rejected_before_secret [OF a b, of demo_platform demo_env fresh] a b c d
    by simp
qed

section \<open>The secret check\<close>

lemma run_session_Cons:
  "run_session pf env (m # frames) s = run_session pf env frames (on_message pf env m s)"
  by (simp add: run_session_def)

lemma secret_differs:
  assumes "17 \<le> length m" and "i < 16" and "m ! (1 + i) \<noteq> uuidToBytes (UUID env) ! i"
  shows "take 16 (drop 1 m) \<noteq> uuidToBytes (UUID env)"
proof
  assume "take 16 (drop 1 m) = uuidToBytes (UUID env)"
  then have "take 16 (drop 1 m) ! i = uuidToBytes (UUID env) ! i"
    by simp
  moreover have "take 16 (drop 1 m) ! i = m ! (1 + i)"
    using assms(1,2) by simp
  ultimately show False
    using assms(3) by simp
qed

lemma readHeader_bad_secret:
  assumes "17 \<le> length m" and "m ! 0 = 0" and "take 16 (drop 1 m) \<noteq> uuidToBytes (UUID env)"
  shows "readHeader env m s =
           (Inl InvalidUUID, emit (CompareArrays (take 16 (drop 1 m)) (uuidToBytes (UUID env))) s)"
  using assms by (auto simp: readHeader_def getUint8_def Uint8Array_def Let_def compareArrays_eq)

section \<open>The sample frames, evaluated\<close>

lemma js_simps: "js [] = []" "js (c # cs) = of_char c # js cs"
  by (simp_all add: js_def)

lemma ipv4_header_read:
  assumes "UUID env = demo_uuid"
  shows "fst (readHeader env (ipv4_header @ p) s)
           = Inr \<lparr>hdr_host = js ''1.2.3.4'', hdr_port = 443, hdr_offset = 26\<rparr>"
  by (simp add: readHeader_fst assms demo_uuid_bytes ipv4_header_def demo_secret_def
      decodeAddress_Inr_iff js_simps digitChar_def)

lemma utf8_decode_ascii:
  "list_all (\<lambda>b. unat b \<le> 127) bs \<Longrightarrow> utf8_decode 0 0 0 128 191 bs = map unat bs"
  by (induction bs) simp_all

lemma utf16_encode_bmp: "list_all (\<lambda>cp. cp < 65536) cps \<Longrightarrow> utf16_encode cps = cps"
  by (induction cps) (simp_all add: utf16_encode_def)

lemma TextDecoder_decode_ascii:
  assumes "list_all (\<lambda>b. unat b \<le> 127) bs"
  shows "TextDecoder_decode bs = map unat bs"
proof -
  have "take 3 bs \<noteq> [239, 187, 191]"
  proof
    assume "take 3 bs = [239, 187, 191]"
    then have "239 \<in> set (take 3 bs)" by simp
    then have "239 \<in> set bs" by (rule in_set_takeD)
    with assms have "unat (239 :: byte) \<le> 127" unfolding list_all_iff by blast
    then show False by simp
  qed
  moreover have "list_all (\<lambda>cp. cp < 65536) (map unat bs)"
    using assms by (induction bs) auto
  ultimately show ?thesis
    using assms by (simp add: TextDecoder_decode_def utf8_decode_ascii utf16_encode_bmp)
qed

lemma domain_header_read:
  assumes "UUID env = demo_uuid"
  shows "fst (readHeader env (domain_header @ p) s)
           = Inr \<lparr>hdr_host = js ''example.org'', hdr_port = 443, hdr_offset = 36\<rparr>"
  by (simp add: readHeader_fst assms demo_uuid_bytes domain_header_def demo_secret_def
      decodeAddress_Inr_iff js_simps TextDecoder_decode_ascii)

lemma ipv6_header_read:
  assumes "UUID env = demo_uuid"
  shows "fst (readHeader env (ipv6_header @ p) s)
           = Inr \<lparr>hdr_host = js ''0000:0000:0000:0000:0000:0000:0000:0001'', hdr_port = 443,
                   hdr_offset = 38\<rparr>"
  by (simp add: readHeader_fst assms demo_uuid_bytes ipv6_header_def demo_secret_def
      decodeAddress_Inr_iff js_simps upt_rec ipv6_step_def padStart_def digitChar_def)

section \<open>The destination of the outbound connection\<close>

lemma processVlessHeader_connects:
  assumes "fst (readHeader env m s) = Inr h"
  shows "connects (trace (snd (processVlessHeader pf env m s)))
       = connects (trace s) @
           [(case PROXY_HOST env of
               None \<Rightarrow> hdr_host h
             | Some proxy \<Rightarrow> if proxy \<noteq> [] \<and> hdr_host h \<noteq> proxy then proxy else hdr_host h,
             hdr_port h)]"
proof -
  have "17 \<le> length m \<and> m ! 0 = 0"
    using assms by (simp add: readHeader_fst)
  then show ?thesis
    using assms
    by (simp add: processVlessHeader_eq Let_def readHeader_state emit_def connects_def
        split: fetch_outcome.splits option.splits)
qed

lemma processVlessHeader_result:
  assumes "fst (readHeader env m s) = Inr h" and "fst (processVlessHeader pf env m s) = Inr r"
  shows "host r = (case PROXY_HOST env of
                     None \<Rightarrow> hdr_host h
                   | Some proxy \<Rightarrow> if proxy \<noteq> [] \<and> hdr_host h \<noteq> proxy then proxy else hdr_host h)"
    and "port r = hdr_port h"
    and "rawVlessHeader r = take (hdr_offset h) m"
    and "sock_id (remoteSocket r) = attempts s"
  using assms
  by (auto simp: processVlessHeader_eq Let_def split: fetch_outcome.splits option.splits)

text \<open>
  C5. Let the header of the frame be read as \<open>h\<close> (its decoded host, port and end offset).
  If \<^verbatim>\<open>PROXY_HOST\<close> is set to a non-empty host that differs from the decoded host,
  \<^verbatim>\<open>connect\<close> is called once, with that host and the parsed port; if \<^verbatim>\<open>PROXY_HOST\<close> is not
  set (or empty), \<^verbatim>\<open>connect\<close> is called once with the decoded host and the parsed port. The
  record returned on success names the same host and port.
\<close>

theorem override_host_connects:
  assumes "fst (readHeader env m s) = Inr h"
  shows "(\<forall>proxy. PROXY_HOST env = Some proxy \<and> proxy \<noteq> [] \<and> proxy \<noteq> hdr_host h \<longrightarrow>
            connects (trace (snd (processVlessHeader pf env m s)))
              = connects (trace s) @ [(proxy, hdr_port h)]
            \<and> (\<forall>r. fst (processVlessHeader pf env m s) = Inr r \<longrightarrow>
                  host r = proxy \<and> port r = hdr_port h))
       \<and> (PROXY_HOST env = None \<or> PROXY_HOST env = Some [] \<longrightarrow>
            connects (trace (snd (processVlessHeader pf env m s)))
              = connects (trace s) @ [(hdr_host h, hdr_port h)]
            \<and> (\<forall>r. fst (processVlessHeader pf env m s) = Inr r \<longrightarrow>
                  host r = hdr_host h \<and> port r = hdr_port h))"
  using processVlessHeader_connects [OF assms, of pf]
    processVlessHeader_result(1,2) [OF assms, of pf]
  by auto

theorem override_host_connects_witness:
  "fst (readHeader pinned_env domain_header fresh)
      = Inr \<lparr>hdr_host = js ''example.org'', hdr_port = 443, hdr_offset = 36\<rparr>
   \<and> PROXY_HOST pinned_env = Some (js ''egress.example'')
   \<and> js ''egress.example'' \<noteq> [] \<and> js ''egress.example'' \<noteq> js ''example.org''
   \<and> connects (trace (snd (processVlessHeader demo_platform pinned_env domain_header fresh)))
        = [(js ''egress.example'', 443)]
   \<and> fst (readHeader demo_env domain_header fresh)
      = Inr \<lparr>hdr_host = js ''example.org'', hdr_port = 443, hdr_offset = 36\<rparr>
   \<and> PROXY_HOST demo_env = None
   \<and> connects (trace (snd (processVlessHeader demo_platform demo_env domain_header fresh)))
        = [(js ''example.org'', 443)]"
proof -
  have a: "fst (readHeader pinned_env domain_header fresh)
      = Inr \<lparr>hdr_host = js ''example.org'', hdr_port = 443, hdr_offset = 36\<rparr>"
    using domain_header_read [of pinned_env "[]" fresh] by (simp add: pinned_env_def)
  have b: "fst (readHeader demo_env domain_header fresh)
      = Inr \<lparr>hdr_host = js ''example.org'', hdr_port = 443, hdr_offset = 36\<rparr>"
    using domain_header_read [of demo_env "[]" fresh] by (simp add: demo_env_def)
  have c: "PROXY_HOST pinned_env = Some (js ''egress.example'')" "PROXY_HOST demo_env = None"
    "js ''egress.example'' \<noteq> []" "js ''egress.example'' \<noteq> js ''example.org''"
    "connects (trace fresh) = []"
    by (simp_all add: pinned_env_def demo_env_def js_simps fresh_def connects_def)
  show ?thesis
    using override_host_connects [OF a, of demo_platform]
      override_host_connects [OF b, of demo_platform] a b c
    by simp
qed

section \<open>The end of the header\<close>

lemma readHeader_accepts:
  assumes ver: "m ! 0 = 0" and sec: "take 16 (drop 1 m) = uuidToBytes (UUID env)"
    and cmd: "m ! (18 + unat (m ! 17)) = 1"
    and kind: "m ! (21 + unat (m ! 17)) = 1 \<or> m ! (21 + unat (m ! 17)) = 2 \<or> m ! (21 + unat (m ! 17)) = 3"
    and len: "22 + unat (m ! 17)
                + spec_addressLength m (22 + unat (m ! 17)) (m ! (21 + unat (m ! 17))) \<le> length m"
  shows "\<exists>h. fst (readHeader env m s) = Inr h
           \<and> hdr_offset h = 22 + unat (m ! 17)
                + spec_addressLength m (22 + unat (m ! 17)) (m ! (21 + unat (m ! 17)))"
proof -
  let ?N = "unat (m ! 17)"
  let ?k = "m ! (21 + ?N)"
  let ?n = "22 + ?N + spec_addressLength m (22 + ?N) ?k"
  have pos: "0 < spec_addressLength m (22 + ?N) ?k"
    by (simp add: spec_addressLength_def)
  obtain a where a: "decodeAddress m (22 + ?N) ?k = Inr (a, ?n)"
    using decodeAddress_total [OF kind, of "22 + ?N"] len by auto
  let ?h = "\<lparr>hdr_host = a,
             hdr_port = 256 * unat (m ! (19 + ?N)) + unat (m ! (20 + ?N)),
             hdr_offset = ?n\<rparr>"
  have "fst (readHeader env m s) = Inr ?h"
    using ver sec cmd a len pos by (simp add: readHeader_fst)
  then show ?thesis
    by (intro exI [of _ ?h]) simp
qed

text \<open>
  C4. Take a frame with version byte 0, the configured secret, \<open>N\<close> addon bytes, command
  byte 1, an address kind of 1, 2 or 3, and at least
  \<open>n = 1 + 16 + 1 + N + 1 + 2 + 1 + addressLength\<close> bytes. Then the address is decoded, the
  offset reached is \<open>n\<close>, and \<^verbatim>\<open>processVlessHeader\<close> goes on to \<^verbatim>\<open>connect\<close> with the host \<open>H\<close>
  (the decoded one, or \<^verbatim>\<open>PROXY_HOST\<close>) and the port \<open>P\<close> of the frame: its effects are the
  entry, the comparison of the secret, the call of \<^verbatim>\<open>connect\<close> and, when the connection
  is established, the write of the frame from byte \<open>n\<close> on to the new socket. In that case
  it returns the record whose header view is the first \<open>n\<close> bytes of the frame; otherwise
  it throws what \<^verbatim>\<open>connect\<close> throws. No parsing error is possible.
\<close>

theorem header_end_offset:
  assumes "m ! 0 = 0" and "take 16 (drop 1 m) = uuidToBytes (UUID env)"
    and "N = unat (m ! 17)" and "m ! (18 + N) = 1"
    and "kind = m ! (21 + N)" and "kind = 1 \<or> kind = 2 \<or> kind = 3"
    and "n = 1 + 16 + 1 + N + 1 + 2 + 1 + spec_addressLength m (22 + N) kind"
    and "n \<le> length m"
  shows "\<exists>a P H. decodeAddress m (22 + N) kind = Inr (a, n)
          \<and> P = 256 * unat (m ! (19 + N)) + unat (m ! (20 + N))
          \<and> H = (case PROXY_HOST env of
                    None \<Rightarrow> a
                  | Some proxy \<Rightarrow> if proxy \<noteq> [] \<and> a \<noteq> proxy then proxy else a)
          \<and> fst (readHeader env m s) = Inr \<lparr>hdr_host = a, hdr_port = P, hdr_offset = n\<rparr>
          \<and> fst (processVlessHeader pf env m s) =
               (case request_error pf H P of
                  Some msg \<Rightarrow> Inl (TypeError msg)
                | None \<Rightarrow>
                    (case fetch_connect pf (attempts s) H P of
                       Resolved chunks \<Rightarrow>
                         Inr \<lparr>remoteSocket = \<lparr>sock_id = attempts s, readable = chunks\<rparr>,
                              host = H, port = P, rawVlessHeader = take n m\<rparr>
                     | Rejected msg \<Rightarrow> Inl (ConnectFailed H P msg)))
          \<and> trace (snd (processVlessHeader pf env m s)) =
               trace s @ [HeaderParse m,
                          CompareArrays (take 16 (drop 1 m)) (uuidToBytes (UUID env)),
                          Connect H P]
                 @ (case request_error pf H P of
                      Some msg \<Rightarrow> []
                    | None \<Rightarrow>
                        (case fetch_connect pf (attempts s) H P of
                           Resolved chunks \<Rightarrow> [RemoteWrite (attempts s) (drop n m)]
                         | Rejected msg \<Rightarrow> []))
          \<and> length (take n m) = n
          \<and> (case fst (processVlessHeader pf env m s) of
                Inr r \<Rightarrow>
                  rawVlessHeader r = take n m \<and> length (rawVlessHeader r) = n
                  \<and> outbound (sock_id (remoteSocket r)) (trace (snd (processVlessHeader pf env m s)))
                      = outbound (sock_id (remoteSocket r)) (trace s) @ [drop n m]
              | Inl e \<Rightarrow> (\<exists>msg. e = TypeError msg)
                         \<or> (\<exists>hostname p cause. e = ConnectFailed hostname p cause))"
proof -
  have n: "n = 22 + N + spec_addressLength m (22 + N) kind"
    using assms(7) by simp
  have pos: "0 < spec_addressLength m (22 + N) kind"
    by (simp add: spec_addressLength_def)
  obtain a where a: "decodeAddress m (22 + N) kind = Inr (a, n)"
    using decodeAddress_total [OF assms(6), of "22 + N" m] assms(8) n by auto
  define P where "P = 256 * unat (m ! (19 + N)) + unat (m ! (20 + N))"
  define H where "H = (case PROXY_HOST env of
                    None \<Rightarrow> a
                  | Some proxy \<Rightarrow> if proxy \<noteq> [] \<and> a \<noteq> proxy then proxy else a)"
  let ?h = "\<lparr>hdr_host = a, hdr_port = P, hdr_offset = n\<rparr>"
  have h: "fst (readHeader env m s) = Inr ?h"
    using assms(1,2,4,8) a pos n unfolding assms(3,5) P_def
    by (simp add: readHeader_fst)
  have long: "17 \<le> length m \<and> m ! 0 = 0"
    using h by (simp add: readHeader_fst)
  have H: "H = (case PROXY_HOST env of
                  None \<Rightarrow> hdr_host ?h
                | Some proxy \<Rightarrow> if proxy \<noteq> [] \<and> hdr_host ?h \<noteq> proxy then proxy else hdr_host ?h)"
    unfolding H_def by (cases "PROXY_HOST env") simp_all
  have eq: "processVlessHeader pf env m s =
        (let s2 = (emit (Connect H (hdr_port ?h))
                     (emit (CompareArrays (take 16 (drop 1 m)) (uuidToBytes (UUID env)))
                        (emit (HeaderParse m) s)))\<lparr>attempts := attempts s + 1\<rparr>
         in case request_error pf H (hdr_port ?h) of
              Some msg \<Rightarrow> (Inl (TypeError msg), s2)
            | None \<Rightarrow>
                (case fetch_connect pf (attempts s) H (hdr_port ?h) of
                   Resolved chunks \<Rightarrow>
                     (Inr \<lparr>remoteSocket = \<lparr>sock_id = attempts s, readable = chunks\<rparr>,
                           host = H, port = hdr_port ?h, rawVlessHeader = take (hdr_offset ?h) m\<rparr>,
                      emit (RemoteWrite (attempts s) (drop (hdr_offset ?h) m)) s2)
                 | Rejected msg \<Rightarrow> (Inl (ConnectFailed H (hdr_port ?h) msg), s2)))"
    unfolding H using h long by (simp add: processVlessHeader_eq readHeader_state Let_def)
  have res: "fst (processVlessHeader pf env m s) =
               (case request_error pf H P of
                  Some msg \<Rightarrow> Inl (TypeError msg)
                | None \<Rightarrow>
                    (case fetch_connect pf (attempts s) H P of
                       Resolved chunks \<Rightarrow>
                         Inr \<lparr>remoteSocket = \<lparr>sock_id = attempts s, readable = chunks\<rparr>,
                              host = H, port = P, rawVlessHeader = take n m\<rparr>
                     | Rejected msg \<Rightarrow> Inl (ConnectFailed H P msg)))"
    unfolding eq by (simp add: Let_def split: fetch_outcome.splits option.splits)
  have tr: "trace (snd (processVlessHeader pf env m s)) =
               trace s @ [HeaderParse m,
                          CompareArrays (take 16 (drop 1 m)) (uuidToBytes (UUID env)),
                          Connect H P]
                 @ (case request_error pf H P of
                      Some msg \<Rightarrow> []
                    | None \<Rightarrow>
                        (case fetch_connect pf (attempts s) H P of
                           Resolved chunks \<Rightarrow> [RemoteWrite (attempts s) (drop n m)]
                         | Rejected msg \<Rightarrow> []))"
    unfolding eq by (simp add: Let_def emit_def split: fetch_outcome.splits option.splits)
  have len: "length (take n m) = n"
    using assms(8) by simp
  have old: "case fst (processVlessHeader pf env m s) of
          Inr r \<Rightarrow>
            rawVlessHeader r = take n m \<and> length (rawVlessHeader r) = n
            \<and> outbound (sock_id (remoteSocket r)) (trace (snd (processVlessHeader pf env m s)))
                = outbound (sock_id (remoteSocket r)) (trace s) @ [drop n m]
        | Inl e \<Rightarrow> (\<exists>msg. e = TypeError msg)
                   \<or> (\<exists>hostname p cause. e = ConnectFailed hostname p cause)"
    unfolding tr unfolding res using len
    by (simp add: outbound_append split: fetch_outcome.splits option.splits)
      (simp add: outbound_def)
  show ?thesis
    using a h res tr len old P_def H_def by blast
qed

theorem header_end_offset_witness:
  "domain_header ! 0 = 0 \<and> take 16 (drop 1 domain_header) = uuidToBytes (UUID demo_env)
   \<and> (2::nat) = unat (domain_header ! 17) \<and> domain_header ! (18 + 2) = 1
   \<and> 2 = domain_header ! (21 + 2)
   \<and> 36 = 1 + 16 + 1 + 2 + 1 + 2 + 1 + spec_addressLength domain_header (22 + 2) 2
   \<and> 36 \<le> length (domain_header @ [80, 81])
   \<and> fst (readHeader demo_env (domain_header @ [80, 81]) fresh)
        = Inr \<lparr>hdr_host = js ''example.org'', hdr_port = 443, hdr_offset = 36\<rparr>
   \<and> fst (processVlessHeader demo_platform demo_env (domain_header @ [80, 81]) fresh)
        = Inr \<lparr>remoteSocket = \<lparr>sock_id = 0, readable = [[65]]\<rparr>, host = js ''example.org'',
               port = 443, rawVlessHeader = domain_header\<rparr>
   \<and> trace (snd (processVlessHeader demo_platform demo_env (domain_header @ [80, 81]) fresh))
        = [HeaderParse (domain_header @ [80, 81]), CompareArrays demo_secret demo_secret,
           Connect (js ''example.org'') 443, RemoteWrite 0 [80, 81]]
   \<and> length domain_header = 36"
proof -
  let ?m = "domain_header @ [80, 81]"
  have a: "?m ! 0 = 0" "take 16 (drop 1 ?m) = uuidToBytes (UUID demo_env)"
    "(2::nat) = unat (?m ! 17)" "?m ! (18 + 2) = 1" "2 = ?m ! (21 + 2)"
    "(2::byte) = 1 \<or> (2::byte) = 2 \<or> (2::byte) = 3"
    "36 = 1 + 16 + 1 + 2 + 1 + 2 + 1 + spec_addressLength ?m (22 + 2) 2"
    "36 \<le> length ?m"
    by (simp_all add: domain_header_def demo_env_def demo_uuid_bytes demo_secret_def
        spec_addressLength_def)
  have b: "domain_header ! 0 = 0" "take 16 (drop 1 domain_header) = uuidToBytes (UUID demo_env)"
    "(2::nat) = unat (domain_header ! 17)" "domain_header ! (18 + 2) = 1"
    "2 = domain_header ! (21 + 2)"
    "36 = 1 + 16 + 1 + 2 + 1 + 2 + 1 + spec_addressLength domain_header (22 + 2) 2"
    "length domain_header = 36"
    by (simp_all add: domain_header_def demo_env_def demo_uuid_bytes demo_secret_def
        spec_addressLength_def)
  have c: "take 36 ?m = domain_header" "drop 36 ?m = [80, 81]"
    "take 16 (drop 1 ?m) = demo_secret" "uuidToBytes (UUID demo_env) = demo_secret"
    by (simp_all add: domain_header_def demo_secret_def demo_env_def demo_uuid_bytes)
  have d: "decodeAddress ?m (22 + 2) 2 = Inr (x, 36) \<longleftrightarrow> x = js ''example.org''" for x
    by (auto simp: decodeAddress_Inr_iff domain_header_def demo_secret_def
        TextDecoder_decode_ascii js_simps)
  have e: "256 * unat (?m ! (19 + 2)) + unat (?m ! (20 + 2)) = 443"
    by (simp add: domain_header_def demo_secret_def)
  have f: "PROXY_HOST demo_env = None" "request_error demo_platform hostname q = None"
    "fetch_connect demo_platform k hostname q = Resolved [[65]]"
    "attempts fresh = 0" "trace fresh = []" for k hostname q
    by (simp_all add: demo_env_def demo_platform_def request_accepted_def always_resolved_def
        fresh_def)
  note main = header_end_offset [OF a, of fresh demo_platform, unfolded c d e f]
  have g: "fst (readHeader demo_env ?m fresh)
        = Inr \<lparr>hdr_host = js ''example.org'', hdr_port = 443, hdr_offset = 36\<rparr>"
    "fst (processVlessHeader demo_platform demo_env ?m fresh)
        = Inr \<lparr>remoteSocket = \<lparr>sock_id = 0, readable = [[65]]\<rparr>, host = js ''example.org'',
               port = 443, rawVlessHeader = domain_header\<rparr>"
    "trace (snd (processVlessHeader demo_platform demo_env ?m fresh))
        = [HeaderParse ?m, CompareArrays demo_secret demo_secret,
           Connect (js ''example.org'') 443, RemoteWrite 0 [80, 81]]"
    using main by auto
  show ?thesis
    using g a(8) b by (intro conjI) assumption+
qed

section \<open>Truncated frames\<close>

lemma decodeAddress_RangeError:
  "decodeAddress m off k = Inl RangeError \<longleftrightarrow>
     (k = 1 \<and> length m < off + 4)
   \<or> (k = 2 \<and> (length m < off + 1 \<or> length m < off + 1 + unat (m ! off)))
   \<or> (k = 3 \<and> length m < off + 16)"
  by (auto simp: decodeAddress_def Let_def getUint8_def Uint8Array_def split: sum.splits)

lemma readHeader_RangeError:
  "fst (readHeader env m s) = Inl RangeError \<longleftrightarrow> spec_truncated env m"
proof -
  have "fst (readHeader env m s) = Inl RangeError \<longleftrightarrow>
    (if length m < 1 then True
      else if m ! 0 \<noteq> 0 then False
      else if length m < 17 then True
      else if take 16 (drop 1 m) \<noteq> uuidToBytes (UUID env) then False
      else if length m < 18 then True
      else if length m < 19 + unat (m ! 17) then True
      else if m ! (18 + unat (m ! 17)) \<noteq> 1 then False
      else if length m < 21 + unat (m ! 17) then True
      else if length m < 22 + unat (m ! 17) then True
      else decodeAddress m (22 + unat (m ! 17)) (m ! (21 + unat (m ! 17))) = Inl RangeError)"
    by (auto simp: readHeader_def Let_def getUint8_def getUint16_def Uint8Array_def
        compareArrays_eq add.commute split: sum.splits prod.splits)
  also have "\<dots> \<longleftrightarrow> spec_truncated env m"
    unfolding spec_truncated_def decodeAddress_RangeError by auto
  finally show ?thesis .
qed

lemma processVlessHeader_RangeError:
  "fst (processVlessHeader pf env m s) = Inl RangeError \<longleftrightarrow> spec_truncated env m"
proof (cases "fst (readHeader env m s)")
  case (Inl e)
  then show ?thesis
    using readHeader_RangeError [of env m s] by (simp add: processVlessHeader_eq)
next
  case (Inr h)
  then have "fst (processVlessHeader pf env m s) \<noteq> Inl RangeError"
    by (simp add: processVlessHeader_eq Let_def split: fetch_outcome.splits option.splits)
  moreover have "\<not> spec_truncated env m"
    using Inr readHeader_RangeError [of env m s] by simp
  ultimately show ?thesis by simp
qed

text \<open>
  C6, as the code has it. \<^verbatim>\<open>processVlessHeader\<close> throws the range error of the buffer reads
  exactly on the frames that end before the bytes some parsing step needs, every step
  before it having accepted what it read. In particular a frame that is valid up to a
  domain address of declared length \<open>L\<close> and holds one byte less than that address needs
  is rejected with the range error.
\<close>

theorem truncated_frame_rejected:
  "(fst (processVlessHeader pf env m s) = Inl RangeError \<longleftrightarrow> spec_truncated env m)
   \<and> (m ! 0 = 0 \<and> take 16 (drop 1 m) = uuidToBytes (UUID env)
        \<and> m ! (18 + unat (m ! 17)) = 1 \<and> m ! (21 + unat (m ! 17)) = 2
        \<and> 22 + unat (m ! 17) < length m
        \<and> length m + 1 = 23 + unat (m ! 17) + unat (m ! (22 + unat (m ! 17)))
      \<longrightarrow> fst (processVlessHeader pf env m s) = Inl RangeError)"
proof -
  have "spec_truncated env m"
    if "m ! 0 = 0" "take 16 (drop 1 m) = uuidToBytes (UUID env)"
      "m ! (18 + unat (m ! 17)) = 1" "m ! (21 + unat (m ! 17)) = 2"
      "22 + unat (m ! 17) < length m"
      "length m + 1 = 23 + unat (m ! 17) + unat (m ! (22 + unat (m ! 17)))"
    using that by (simp add: spec_truncated_def)
  then show ?thesis
    by (simp add: processVlessHeader_RangeError)
qed

theorem truncated_frame_rejected_witness:
  "butlast domain_header ! 0 = 0
   \<and> take 16 (drop 1 (butlast domain_header)) = uuidToBytes (UUID demo_env)
   \<and> unat (butlast domain_header ! 17) = 2 \<and> butlast domain_header ! 20 = 1
   \<and> butlast domain_header ! 23 = 2 \<and> unat (butlast domain_header ! 24) = 11
   \<and> length (butlast domain_header) + 1 = 23 + 2 + 11
   \<and> spec_truncated demo_env (butlast domain_header)
   \<and> fst (processVlessHeader demo_platform demo_env (butlast domain_header) fresh) = Inl RangeError
   \<and> \<not> spec_truncated demo_env domain_header
   \<and> fst (processVlessHeader demo_platform demo_env domain_header fresh) \<noteq> Inl RangeError"
proof -
  let ?m = "butlast domain_header"
  have a: "?m ! 0 = 0" "take 16 (drop 1 ?m) = uuidToBytes (UUID demo_env)"
    "unat (?m ! 17) = 2" "?m ! 20 = 1" "?m ! 23 = 2" "unat (?m ! 24) = 11"
    "length ?m + 1 = 23 + 2 + 11" "length ?m = 35"
    by (simp_all add: domain_header_def demo_env_def demo_uuid_bytes demo_secret_def)
  have b: "\<not> spec_truncated demo_env domain_header"
    by (simp add: spec_truncated_def domain_header_def demo_env_def demo_uuid_bytes demo_secret_def)
  have c: "fst (processVlessHeader demo_platform demo_env ?m fresh) = Inl RangeError"
    using truncated_frame_rejected [of demo_platform demo_env ?m fresh] a by simp
  then have d: "spec_truncated demo_env ?m"
    using truncated_frame_rejected [of demo_platform demo_env ?m fresh] by simp
  have e: "fst (processVlessHeader demo_platform demo_env domain_header fresh) \<noteq> Inl RangeError"
    using truncated_frame_rejected [of demo_platform demo_env domain_header fresh] b by simp
  show ?thesis
    using a b c d e by simp
qed

text \<open>
  The claim as it is worded fails on a short frame that an earlier check rejects: the
  one-byte frame below is shorter than the 17 bytes the secret step needs, and the error
  is the unsupported-version error.
\<close>

theorem truncated_frame_counterexample:
  "length [1 :: byte] < 17
   \<and> fst (processVlessHeader demo_platform demo_env [1] fresh) = Inl (UnsupportedVersion 1)
   \<and> fst (processVlessHeader demo_platform demo_env [1] fresh) \<noteq> Inl RangeError"
proof -
  have "processVlessHeader demo_platform demo_env [1] fresh
      = (Inl (UnsupportedVersion ([1] ! 0)), emit (HeaderParse [1]) fresh)"
    by (simp add: processVlessHeader_failed readHeader_bad_version)
  then show ?thesis by simp
qed

section \<open>Address decoding\<close>

lemma numberToString_decimal_byte: "numberToString 10 (unat b) = spec_decimal b"
proof -
  have lt: "unat b < 256"
    using unsigned_less [of b, where 'a = nat] by simp
  consider "unat b < 10" | "10 \<le> unat b" "unat b < 100" | "100 \<le> unat b"
    by linarith
  then show ?thesis
  proof cases
    case 1
    then show ?thesis by (simp add: spec_decimal_def digitChar_def Let_def)
  next
    case 2
    then have "unat b div 10 < 10" by simp
    with 2 show ?thesis by (simp add: spec_decimal_def digitChar_def Let_def)
  next
    case 3
    then have a: "\<not> unat b div 10 < 10" by simp
    have b: "unat b div 10 div 10 < 10" using lt by simp
    have c: "unat b div 10 div 10 = unat b div 100" by (simp add: div_mult2_eq)
    from 3 a b c show ?thesis by (simp add: spec_decimal_def digitChar_def Let_def)
  qed
qed

lemma hex_digit_char: "d < 16 \<Longrightarrow> of_char (''0123456789abcdef'' ! d) = digitChar d"
proof -
  have "\<forall>d \<in> set [0..<16]. of_char (''0123456789abcdef'' ! d) = digitChar d"
    by (simp add: upt_rec digitChar_def)
  then show "d < 16 \<Longrightarrow> of_char (''0123456789abcdef'' ! d) = digitChar d"
    by simp
qed

lemma spec_hex2_digits: "spec_hex2 b = [digitChar (unat b div 16), digitChar (unat b mod 16)]"
proof -
  have lt: "unat b < 256"
    using unsigned_less [of b, where 'a = nat] by simp
  then have "unat b div 16 < 16" and "unat b mod 16 < 16"
    by simp_all
  then have "of_char (''0123456789abcdef'' ! (unat b div 16)) = digitChar (unat b div 16)"
    and "of_char (''0123456789abcdef'' ! (unat b mod 16)) = digitChar (unat b mod 16)"
    by (simp_all only: hex_digit_char)
  then show ?thesis
    by (simp only: spec_hex2_def list.map)
qed

lemma numberToString_hex_byte: "padStart (numberToString 16 (unat b)) 2 48 = spec_hex2 b"
proof -
  have lt: "unat b < 256"
    using unsigned_less [of b, where 'a = nat] by simp
  show ?thesis
  proof (cases "unat b < 16")
    case True
    then have "unat b div 16 = 0" "unat b mod 16 = unat b" by simp_all
    with True show ?thesis
      by (simp add: padStart_def spec_hex2_digits digitChar_def)
  next
    case False
    have "unat b div 16 < 16" using lt by simp
    with False show ?thesis
      by (simp add: padStart_def spec_hex2_digits)
  qed
qed

lemma ipv6_fold_explicit:
  "foldl ipv6_step [] (zip [b0, b1, b2, b3, b4, b5, b6, b7, b8, b9, b10, b11, b12, b13, b14, b15] [0..<16])
     = spec_ipv6_text [b0, b1, b2, b3, b4, b5, b6, b7, b8, b9, b10, b11, b12, b13, b14, b15]"
  by (simp add: upt_rec ipv6_step_def spec_ipv6_text_def numberToString_hex_byte js_simps
      del: numberToString.simps)

lemma list16:
  assumes "length bs = 16"
  shows "\<exists>b0 b1 b2 b3 b4 b5 b6 b7 b8 b9 b10 b11 b12 b13 b14 b15.
           bs = [b0, b1, b2, b3, b4, b5, b6, b7, b8, b9, b10, b11, b12, b13, b14, b15]"
proof -
  have "bs = map ((!) bs) [0..<16]"
    using map_nth [of bs] assms by simp
  then have "bs = [bs ! 0, bs ! 1, bs ! 2, bs ! 3, bs ! 4, bs ! 5, bs ! 6, bs ! 7, bs ! 8,
                   bs ! 9, bs ! 10, bs ! 11, bs ! 12, bs ! 13, bs ! 14, bs ! 15]"
    by (simp add: upt_rec eval_nat_numeral)
  then show ?thesis
    by blast
qed

lemma ipv6_fold:
  assumes "length bs = 16"
  shows "foldl ipv6_step [] (zip bs [0..<16]) = spec_ipv6_text bs"
proof -
  obtain b0 b1 b2 b3 b4 b5 b6 b7 b8 b9 b10 b11 b12 b13 b14 b15
    where "bs = [b0, b1, b2, b3, b4, b5, b6, b7, b8, b9, b10, b11, b12, b13, b14, b15]"
    using list16 [OF assms] by blast
  then show ?thesis
    by (simp only: ipv6_fold_explicit)
qed

lemma list4:
  assumes "length bs = 4"
  shows "\<exists>b0 b1 b2 b3. bs = [b0, b1, b2, b3]"
proof -
  have "bs = map ((!) bs) [0..<4]"
    using map_nth [of bs] assms by simp
  then have "bs = [bs ! 0, bs ! 1, bs ! 2, bs ! 3]"
    by (simp add: upt_rec eval_nat_numeral)
  then show ?thesis
    by blast
qed

lemma ipv4_join:
  assumes "length bs = 4"
  shows "join (js ''.'') (map (\<lambda>b. numberToString 10 (unat b)) bs) = spec_ipv4_text bs"
proof -
  obtain b0 b1 b2 b3 where "bs = [b0, b1, b2, b3]"
    using list4 [OF assms] by blast
  then show ?thesis
    by (simp add: spec_ipv4_text_def numberToString_decimal_byte del: numberToString.simps)
qed

section \<open>Decoding UTF-8\<close>

lemma unat_byte_of_nat: "x < 256 \<Longrightarrow> unat (of_nat x :: byte) = x"
  by (simp add: unat_of_nat)

lemma decode_first:
  assumes "x < 256"
  shows "x \<le> 127 \<Longrightarrow>
           utf8_decode 0 0 0 128 191 (of_nat x # bs) = x # utf8_decode 0 0 0 128 191 bs"
    and "194 \<le> x \<Longrightarrow> x \<le> 223 \<Longrightarrow>
           utf8_decode 0 0 0 128 191 (of_nat x # bs) = utf8_decode (x mod 32) 0 1 128 191 bs"
    and "224 \<le> x \<Longrightarrow> x \<le> 239 \<Longrightarrow>
           utf8_decode 0 0 0 128 191 (of_nat x # bs)
             = utf8_decode (x mod 16) 0 2 (if x = 224 then 160 else 128)
                 (if x = 237 then 159 else 191) bs"
    and "240 \<le> x \<Longrightarrow> x \<le> 244 \<Longrightarrow>
           utf8_decode 0 0 0 128 191 (of_nat x # bs)
             = utf8_decode (x mod 8) 0 3 (if x = 240 then 144 else 128)
                 (if x = 244 then 143 else 191) bs"
  using assms by (simp_all add: unat_byte_of_nat)

lemma decode_next:
  assumes "x < 256" and "needed \<noteq> 0" and "lower \<le> x" and "x \<le> upper"
  shows "seen + 1 \<noteq> needed \<Longrightarrow>
           utf8_decode cp seen needed lower upper (of_nat x # bs)
             = utf8_decode (cp * 64 + x mod 64) (seen + 1) needed 128 191 bs"
    and "seen + 1 = needed \<Longrightarrow>
           utf8_decode cp seen needed lower upper (of_nat x # bs)
             = (cp * 64 + x mod 64) # utf8_decode 0 0 0 128 191 bs"
  using assms by (simp_all add: unat_byte_of_nat)

lemma cp2_lead: "128 \<le> cp \<Longrightarrow> cp < 2048 \<Longrightarrow> cp div 64 < 32 \<and> 2 \<le> cp div 64" for cp :: nat
  by (simp add: div_less_iff_less_mult less_eq_div_iff_mult_less_eq)
lemma mod64_cont: "(128 + a) mod 64 = a mod 64" for a :: nat
  using mod_mult_self4 [of 64 2 a] by simp
lemma mod32_lead: "a < 32 \<Longrightarrow> (192 + a) mod 32 = a" for a :: nat
  using mod_mult_self4 [of 32 6 a] by simp
lemma mod16_lead: "a < 16 \<Longrightarrow> (224 + a) mod 16 = a" for a :: nat
  using mod_mult_self4 [of 16 14 a] by simp
lemma mod8_lead: "a < 8 \<Longrightarrow> (240 + a) mod 8 = a" for a :: nat
  using mod_mult_self4 [of 8 30 a] by simp
lemma cp3_high: "cp div 4096 * 64 + cp div 64 mod 64 = cp div 64" for cp :: nat
proof -
  have "cp div 4096 = cp div 64 div 64" by (simp add: div_mult2_eq)
  then show ?thesis by simp
qed
lemma cp4_high: "cp div 262144 * 64 + cp div 4096 mod 64 = cp div 4096" for cp :: nat
proof -
  have "cp div 262144 = cp div 4096 div 64" by (simp add: div_mult2_eq)
  then show ?thesis by simp
qed
lemma cp3_low_bound: "2048 \<le> cp \<Longrightarrow> cp div 4096 = 0 \<Longrightarrow> 32 \<le> cp div 64 mod 64" for cp :: nat
proof -
  assume a: "2048 \<le> cp" "cp div 4096 = 0"
  then have "cp < 4096" by simp
  then have "cp div 64 < 64" by (simp add: div_less_iff_less_mult)
  moreover have "32 \<le> cp div 64" using a by (simp add: less_eq_div_iff_mult_less_eq)
  ultimately show ?thesis by simp
qed
lemma cp3_surrogate_bound: "cp < 55296 \<Longrightarrow> cp div 4096 = 13 \<Longrightarrow> cp div 64 mod 64 < 32" for cp :: nat
proof -
  assume a: "cp < 55296" "cp div 4096 = 13"
  have "cp div 64 < 864" using a by (simp add: div_less_iff_less_mult)
  moreover have "cp div 64 div 64 = 13" using a by (simp add: div_mult2_eq)
  ultimately show ?thesis
    using div_mult_mod_eq [of "cp div 64" 64] by linarith
qed
lemma cp4_low_bound: "65536 \<le> cp \<Longrightarrow> cp div 262144 = 0 \<Longrightarrow> 16 \<le> cp div 4096 mod 64" for cp :: nat
proof -
  assume a: "65536 \<le> cp" "cp div 262144 = 0"
  then have "cp < 262144" by simp
  then have "cp div 4096 < 64" by (simp add: div_less_iff_less_mult)
  moreover have "16 \<le> cp div 4096" using a by (simp add: less_eq_div_iff_mult_less_eq)
  ultimately show ?thesis by simp
qed
lemma cp4_high_bound: "cp < 1114112 \<Longrightarrow> cp div 262144 = 4 \<Longrightarrow> cp div 4096 mod 64 < 16" for cp :: nat
proof -
  assume a: "cp < 1114112" "cp div 262144 = 4"
  have "cp div 4096 < 272" using a by (simp add: div_less_iff_less_mult)
  moreover have "cp div 4096 div 64 = 4" using a by (simp add: div_mult2_eq)
  ultimately show ?thesis
    using div_mult_mod_eq [of "cp div 4096" 64] by linarith
qed
lemma cp4_lead: "cp < 1114112 \<Longrightarrow> cp div 262144 \<le> 4" for cp :: nat
  using div_le_mono [of cp 1114111 262144] by simp

lemma utf8_decode_encode_cp:
  assumes "unicode_scalar cp"
  shows "utf8_decode 0 0 0 128 191 (spec_utf8_encode_cp cp @ rest)
           = cp # utf8_decode 0 0 0 128 191 rest"
proof -
  let ?D = "utf8_decode 0 0 0 128 191"
  have lt: "cp < 1114112" and ns: "cp < 55296 \<or> 57343 < cp"
    using assms by (auto simp: unicode_scalar_def)
  have m64: "a mod 64 < 64" for a :: nat
    by simp
  consider "cp < 128" | "128 \<le> cp" "cp < 2048" | "2048 \<le> cp" "cp < 65536" | "65536 \<le> cp"
    by linarith
  then show ?thesis
  proof cases
    case 1
    then have "spec_utf8_encode_cp cp = [of_nat cp]"
      by (simp add: spec_utf8_encode_cp_def)
    then show ?thesis
      using 1 decode_first(1) [of cp rest] by simp
  next
    case 2
    define x where "x = 192 + cp div 64"
    define y where "y = 128 + cp mod 64"
    have enc: "spec_utf8_encode_cp cp = [of_nat x, of_nat y]"
      using 2 by (simp add: spec_utf8_encode_cp_def x_def y_def)
    have d: "cp div 64 < 32" "2 \<le> cp div 64"
      using cp2_lead [OF 2] by simp_all
    have bx: "x < 256" "194 \<le> x" "x \<le> 223"
      using d unfolding x_def by linarith+
    have by': "y < 256" "128 \<le> y" "y \<le> 191"
      using m64 [of cp] unfolding y_def by linarith+
    have v: "x mod 32 * 64 + y mod 64 = cp"
      unfolding x_def y_def using d by (simp add: mod32_lead mod64_cont)
    have "?D (spec_utf8_encode_cp cp @ rest) = utf8_decode (x mod 32) 0 1 128 191 (of_nat y # rest)"
      using decode_first(2) [OF bx] by (simp add: enc del: utf8_decode.simps)
    also have "\<dots> = (x mod 32 * 64 + y mod 64) # ?D rest"
      using by' by (intro decode_next(2)) simp_all
    finally show ?thesis
      by (simp only: v)
  next
    case 3
    define x where "x = 224 + cp div 4096"
    define y where "y = 128 + (cp div 64) mod 64"
    define z where "z = 128 + cp mod 64"
    define lo :: nat where "lo = (if x = 224 then 160 else 128)"
    define hi :: nat where "hi = (if x = 237 then 159 else 191)"
    have enc: "spec_utf8_encode_cp cp = [of_nat x, of_nat y, of_nat z]"
      using 3 by (simp add: spec_utf8_encode_cp_def x_def y_def z_def)
    have d: "cp div 4096 < 16"
      using 3 by (simp add: div_less_iff_less_mult)
    have bx: "x < 256" "224 \<le> x" "x \<le> 239"
      using d unfolding x_def by linarith+
    have l: "lo \<le> y"
      using cp3_low_bound [of cp] 3 unfolding lo_def x_def y_def by auto
    have sur: "cp div 4096 = 13 \<Longrightarrow> cp < 55296"
      using ns 3 by (auto simp: not_less dest!: less_eq_div_iff_mult_less_eq [THEN iffD2, rotated, of 57344 cp 4096])
    have h: "y \<le> hi"
      using cp3_surrogate_bound [of cp] sur m64 [of "cp div 64"] unfolding hi_def x_def y_def
      by auto
    have by': "y < 256"
      using m64 [of "cp div 64"] unfolding y_def by linarith
    have bz: "z < 256" "128 \<le> z" "z \<le> 191"
      using m64 [of cp] unfolding z_def by linarith+
    have v: "(x mod 16 * 64 + y mod 64) * 64 + z mod 64 = cp"
      unfolding x_def y_def z_def using d by (simp add: mod16_lead mod64_cont cp3_high)
    have "?D (spec_utf8_encode_cp cp @ rest) = utf8_decode (x mod 16) 0 2 lo hi (of_nat y # of_nat z # rest)"
      using decode_first(3) [OF bx] by (simp add: enc lo_def hi_def del: utf8_decode.simps)
    also have "\<dots> = utf8_decode (x mod 16 * 64 + y mod 64) (0 + 1) 2 128 191 (of_nat z # rest)"
      using by' l h by (intro decode_next(1)) simp_all
    also have "\<dots> = ((x mod 16 * 64 + y mod 64) * 64 + z mod 64) # ?D rest"
      using bz by (intro decode_next(2)) simp_all
    finally show ?thesis
      by (simp only: v)
  next
    case 4
    define w where "w = 240 + cp div 262144"
    define x where "x = 128 + (cp div 4096) mod 64"
    define y where "y = 128 + (cp div 64) mod 64"
    define z where "z = 128 + cp mod 64"
    define lo :: nat where "lo = (if w = 240 then 144 else 128)"
    define hi :: nat where "hi = (if w = 244 then 143 else 191)"
    have enc: "spec_utf8_encode_cp cp = [of_nat w, of_nat x, of_nat y, of_nat z]"
      using 4 by (simp add: spec_utf8_encode_cp_def w_def x_def y_def z_def)
    have d: "cp div 262144 \<le> 4"
      using lt by (rule cp4_lead)
    have bw: "w < 256" "240 \<le> w" "w \<le> 244"
      using d unfolding w_def by linarith+
    have l: "lo \<le> x"
      using cp4_low_bound [of cp] 4 unfolding lo_def w_def x_def by auto
    have h: "x \<le> hi"
      using cp4_high_bound [of cp] lt m64 [of "cp div 4096"] unfolding hi_def w_def x_def
      by auto
    have bx: "x < 256"
      using m64 [of "cp div 4096"] unfolding x_def by linarith
    have by': "y < 256" "128 \<le> y" "y \<le> 191"
      using m64 [of "cp div 64"] unfolding y_def by linarith+
    have bz: "z < 256" "128 \<le> z" "z \<le> 191"
      using m64 [of cp] unfolding z_def by linarith+
    have v: "((w mod 8 * 64 + x mod 64) * 64 + y mod 64) * 64 + z mod 64 = cp"
      unfolding w_def x_def y_def z_def using d
      by (simp add: mod8_lead mod64_cont cp4_high cp3_high)
    have "?D (spec_utf8_encode_cp cp @ rest)
        = utf8_decode (w mod 8) 0 3 lo hi (of_nat x # of_nat y # of_nat z # rest)"
      using decode_first(4) [OF bw] by (simp add: enc lo_def hi_def del: utf8_decode.simps)
    also have "\<dots> = utf8_decode (w mod 8 * 64 + x mod 64) (0 + 1) 3 128 191 (of_nat y # of_nat z # rest)"
      using bx l h by (intro decode_next(1)) simp_all
    also have "\<dots> = utf8_decode ((w mod 8 * 64 + x mod 64) * 64 + y mod 64) (0 + 1 + 1) 3 128 191 (of_nat z # rest)"
      using by' by (intro decode_next(1)) simp_all
    also have "\<dots> = (((w mod 8 * 64 + x mod 64) * 64 + y mod 64) * 64 + z mod 64) # ?D rest"
      using bz by (intro decode_next(2)) simp_all
    finally show ?thesis
      by (simp only: v)
  qed
qed

lemma utf8_decode_encode:
  "list_all unicode_scalar cps \<Longrightarrow> utf8_decode 0 0 0 128 191 (spec_utf8_encode cps @ rest)
     = cps @ utf8_decode 0 0 0 128 191 rest"
proof (induction cps)
  case Nil
  then show ?case by (simp add: spec_utf8_encode_def)
next
  case (Cons cp cps)
  have "spec_utf8_encode (cp # cps) @ rest = spec_utf8_encode_cp cp @ (spec_utf8_encode cps @ rest)"
    by (simp add: spec_utf8_encode_def)
  then show ?case
    using Cons by (simp add: utf8_decode_encode_cp del: utf8_decode.simps)
qed

lemma encode_bom: "spec_utf8_encode_cp 65279 = [239, 187, 191]"
  by (simp add: spec_utf8_encode_cp_def)

lemma bom_first:
  assumes "list_all unicode_scalar cps"
  shows "take 3 (spec_utf8_encode cps) = [239, 187, 191] \<longleftrightarrow> cps \<noteq> [] \<and> hd cps = 65279"
proof
  assume bom: "take 3 (spec_utf8_encode cps) = [239, 187, 191]"
  have "spec_utf8_encode cps = take 3 (spec_utf8_encode cps) @ drop 3 (spec_utf8_encode cps)"
    by simp
  then have split: "spec_utf8_encode cps = spec_utf8_encode_cp 65279 @ drop 3 (spec_utf8_encode cps)"
    by (simp only: bom encode_bom)
  have "cps = utf8_decode 0 0 0 128 191 (spec_utf8_encode cps)"
    using utf8_decode_encode [OF assms, of "[]"] by simp
  also have "\<dots> = 65279 # utf8_decode 0 0 0 128 191 (drop 3 (spec_utf8_encode cps))"
    by (subst split, rule utf8_decode_encode_cp) (simp add: unicode_scalar_def)
  finally show "cps \<noteq> [] \<and> hd cps = 65279"
    by (cases cps) simp_all
next
  assume "cps \<noteq> [] \<and> hd cps = 65279"
  then obtain tl where "cps = 65279 # tl"
    by (cases cps) auto
  then show "take 3 (spec_utf8_encode cps) = [239, 187, 191]"
    by (simp add: spec_utf8_encode_def encode_bom)
qed

lemma TextDecoder_decode_utf8:
  assumes "list_all unicode_scalar cps"
  shows "TextDecoder_decode (spec_utf8_encode cps)
           = utf16_encode (if cps \<noteq> [] \<and> hd cps = 65279 then tl cps else cps)"
proof (cases "cps \<noteq> [] \<and> hd cps = 65279")
  case True
  then obtain rest where c: "cps = 65279 # rest"
    by (cases cps) auto
  then have enc: "spec_utf8_encode cps = [239, 187, 191] @ spec_utf8_encode rest"
    by (simp add: spec_utf8_encode_def encode_bom)
  have "list_all unicode_scalar rest"
    using assms c by simp
  then have "utf8_decode 0 0 0 128 191 (spec_utf8_encode rest) = rest"
    using utf8_decode_encode [of rest "[]"] by simp
  moreover have "TextDecoder_decode (spec_utf8_encode cps)
      = utf16_encode (utf8_decode 0 0 0 128 191 (spec_utf8_encode rest))"
    unfolding enc by (simp add: TextDecoder_decode_def del: utf8_decode.simps)
  ultimately show ?thesis
    using c by simp
next
  case False
  then have "take 3 (spec_utf8_encode cps) \<noteq> [239, 187, 191]"
    using bom_first [OF assms] by simp
  moreover have "utf8_decode 0 0 0 128 191 (spec_utf8_encode cps) = cps"
    using utf8_decode_encode [OF assms, of "[]"] by simp
  ultimately show ?thesis
    using False by (auto simp: TextDecoder_decode_def simp del: utf8_decode.simps)
qed

text \<open>
  C7. The \<^verbatim>\<open>switch\<close> on the address kind decodes each form as the design document says.
  Kind 1: four bytes give their decimal values joined by dots, and the offset moves by 4.
  Kind 2: the length byte \<open>L\<close> (any value of a byte) and the \<open>L\<close> bytes after it give the
  \<^verbatim>\<open>TextDecoder\<close> reading of exactly those bytes, and the offset moves by \<open>1 + L\<close>; when the
  bytes are the UTF-8 encoding of a text, that reading is the text itself (as UTF-16, a
  leading byte order mark apart). Kind 3: sixteen bytes give eight groups of four
  lowercase hexadecimal digits joined by colons, and the offset moves by 16. The two
  examples of the design document come out as written.
\<close>

theorem address_decoding:
  "(off + 4 \<le> length m \<longrightarrow>
      decodeAddress m off 1 = Inr (spec_ipv4_text (take 4 (drop off m)), off + 4))
   \<and> (off < length m \<and> off + 1 + unat (m ! off) \<le> length m \<longrightarrow>
      unat (m ! off) \<le> 255
      \<and> decodeAddress m off 2
          = Inr (TextDecoder_decode (take (unat (m ! off)) (drop (off + 1) m)),
                 off + 1 + unat (m ! off)))
   \<and> (list_all unicode_scalar cps \<and> (cps = [] \<or> hd cps \<noteq> 65279) \<longrightarrow>
      TextDecoder_decode (spec_utf8_encode cps) = utf16_encode cps)
   \<and> (off + 16 \<le> length m \<longrightarrow>
      decodeAddress m off 3 = Inr (spec_ipv6_text (take 16 (drop off m)), off + 16))
   \<and> decodeAddress [1, 2, 3, 4] 0 1 = Inr (js ''1.2.3.4'', 4)
   \<and> decodeAddress [0, 0, 0, 0, 0, 0, 0, 0, 0, 0, 0, 0, 0, 0, 0, 1] 0 3
        = Inr (js ''0000:0000:0000:0000:0000:0000:0000:0001'', 16)"
proof -
  have v4: "decodeAddress m off 1 = Inr (spec_ipv4_text (take 4 (drop off m)), off + 4)"
    if "off + 4 \<le> length m" for m off
  proof -
    have "length (take 4 (drop off m)) = 4"
      using that by simp
    then show ?thesis
      using that by (simp add: decodeAddress_Inr_iff ipv4_join del: numberToString.simps)
  qed
  have dom: "decodeAddress m off 2
          = Inr (TextDecoder_decode (take (unat (m ! off)) (drop (off + 1) m)),
                 off + 1 + unat (m ! off))"
    if "off < length m" "off + 1 + unat (m ! off) \<le> length m"
    using that by (simp add: decodeAddress_Inr_iff)
  have byte: "unat (m ! off) \<le> 255"
    using unsigned_less [of "m ! off", where 'a = nat] by simp
  have v6: "decodeAddress m off 3 = Inr (spec_ipv6_text (take 16 (drop off m)), off + 16)"
    if "off + 16 \<le> length m" for m off
  proof -
    have len: "length (take 16 (drop off m)) = 16"
      using that by simp
    have "foldl ipv6_step [] (zip (take 16 (drop off m)) [0..<length (take 16 (drop off m))])
        = spec_ipv6_text (take 16 (drop off m))"
      unfolding len by (rule ipv6_fold [OF len])
    then show ?thesis
      using that by (simp only: decodeAddress_Inr_iff) simp
  qed
  have utf: "TextDecoder_decode (spec_utf8_encode cps) = utf16_encode cps"
    if "list_all unicode_scalar cps" "cps = [] \<or> hd cps \<noteq> 65279"
    using that TextDecoder_decode_utf8 [of "cps"] by auto
  have e4: "decodeAddress [1, 2, 3, 4] 0 1 = Inr (js ''1.2.3.4'', 4)"
    using v4 [of 0 "[1, 2, 3, 4]"]
    by (simp add: spec_ipv4_text_def spec_decimal_def js_simps)
  have e6: "decodeAddress [0, 0, 0, 0, 0, 0, 0, 0, 0, 0, 0, 0, 0, 0, 0, 1] 0 3
        = Inr (js ''0000:0000:0000:0000:0000:0000:0000:0001'', 16)"
    using v6 [of 0 "[0, 0, 0, 0, 0, 0, 0, 0, 0, 0, 0, 0, 0, 0, 0, 1]"]
    by (simp add: spec_ipv6_text_def spec_hex2_digits digitChar_def js_simps upt_rec)
  show ?thesis
    using v4 [of off m] dom byte utf v6 [of off m] e4 e6 by blast
qed

theorem address_decoding_witness:
  "0 + 4 \<le> length address_bytes
   \<and> decodeAddress address_bytes 0 1 = Inr (js ''11.101.120.97'', 4)
   \<and> 0 < length address_bytes \<and> 0 + 1 + unat (address_bytes ! 0) \<le> length address_bytes
   \<and> unat (address_bytes ! 0) = 11
   \<and> decodeAddress address_bytes 0 2 = Inr (js ''example.org'', 12)
   \<and> list_all unicode_scalar [8364] \<and> hd [8364 :: nat] \<noteq> 65279
   \<and> spec_utf8_encode [8364] = [226, 130, 172]
   \<and> TextDecoder_decode [226, 130, 172] = [8364]
   \<and> 0 + 16 \<le> length address_bytes
   \<and> decodeAddress address_bytes 0 3 = Inr (js ''0b65:7861:6d70:6c65:2e6f:7267:0707:0707'', 16)
   \<and> decodeAddress [0] 0 2 = Inr ([], 1)
   \<and> decodeAddress (255 # replicate 255 97) 0 2 = Inr (replicate 255 97, 256)"
proof -
  note main = address_decoding [of 0 address_bytes "[8364]"]
  have short: "decodeAddress [0] 0 2 = Inr ([], 1)"
    using address_decoding [of 0 "[0]" "[]"]
    by (simp add: TextDecoder_decode_ascii)
  have ascii: "list_all (\<lambda>b. unat b \<le> 127) (replicate 255 (97 :: byte))"
    by (simp add: list_all_iff)
  have long: "decodeAddress (255 # replicate 255 97) 0 2 = Inr (replicate 255 97, 256)"
    using address_decoding [of 0 "255 # replicate 255 97" "[]"]
    by (simp add: TextDecoder_decode_ascii [OF ascii])
  have a: "0 + 4 \<le> length address_bytes" "0 < length address_bytes"
    "0 + 1 + unat (address_bytes ! 0) \<le> length address_bytes" "unat (address_bytes ! 0) = 11"
    "0 + 16 \<le> length address_bytes"
    by (simp_all add: address_bytes_def)
  have b: "list_all unicode_scalar [8364]" "hd [8364 :: nat] \<noteq> 65279"
    "spec_utf8_encode [8364] = [226, 130, 172]" "utf16_encode [8364] = [8364]"
    by (simp_all add: unicode_scalar_def spec_utf8_encode_def spec_utf8_encode_cp_def
        utf16_encode_def)
  have c: "spec_ipv4_text (take 4 (drop 0 address_bytes)) = js ''11.101.120.97''"
    by (simp add: address_bytes_def spec_ipv4_text_def spec_decimal_def js_simps)
  have d: "TextDecoder_decode (take (unat (address_bytes ! 0)) (drop (0 + 1) address_bytes))
             = js ''example.org''"
    by (simp add: address_bytes_def TextDecoder_decode_ascii js_simps)
  have e: "spec_ipv6_text (take 16 (drop 0 address_bytes))
             = js ''0b65:7861:6d70:6c65:2e6f:7267:0707:0707''"
    by (simp add: address_bytes_def spec_ipv6_text_def spec_hex2_digits digitChar_def js_simps
        upt_rec)
  have v4: "decodeAddress address_bytes 0 1 = Inr (js ''11.101.120.97'', 4)"
    using main a c by simp
  have dom: "decodeAddress address_bytes 0 2 = Inr (js ''example.org'', 12)"
    using main a d by simp
  have utf: "TextDecoder_decode [226, 130, 172] = [8364]"
    using main b by simp
  have v6: "decodeAddress address_bytes 0 3 = Inr (js ''0b65:7861:6d70:6c65:2e6f:7267:0707:0707'', 16)"
    using main a e by simp
  show ?thesis
    using a b v4 dom utf v6 short long by simp
qed

section \<open>The two sides of the secret comparison\<close>

lemma processVlessHeader_comparisons:
  "comparisons (trace (snd (processVlessHeader pf env m s)))
     = comparisons (trace s) @
         (if 17 \<le> length m \<and> m ! 0 = 0
          then [(take 16 (drop 1 m), uuidToBytes (UUID env))] else [])"
  by (simp add: processVlessHeader_eq Let_def readHeader_state emit_def comparisons_def
      split: sum.splits fetch_outcome.splits option.splits)

lemma uuidToBytes_nth:
  assumes "i < 16"
  shows "uuidToBytes uuid ! i
           = ToUint8 (parseInt16 (substring (filter (\<lambda>c. c \<noteq> 45) uuid) (i * 2) (i * 2 + 2)))"
  using assms unfolding uuidToBytes_map by (simp del: upt_Suc)

text \<open>
  C10. Whatever string \<^verbatim>\<open>uuidToBytes\<close> is given, it returns 16 bytes, and a pair of
  characters that \<^verbatim>\<open>parseInt\<close> cannot read gives the byte 0. The only call of
  \<^verbatim>\<open>compareArrays\<close> that \<^verbatim>\<open>processVlessHeader\<close> makes, if it makes one, compares the 16 bytes
  after the version byte with those 16 bytes: both arguments have length 16, so the
  function does not return through its length test, and its result is the equality of
  the two arrays.
\<close>

theorem uuid_bytes_always_sixteen:
  "length (uuidToBytes uuid) = 16
   \<and> (\<forall>i<16. parseInt16 (substring (filter (\<lambda>c. c \<noteq> 45) uuid) (i * 2) (i * 2 + 2)) = None
          \<longrightarrow> uuidToBytes uuid ! i = 0)
   \<and> (\<exists>calls. comparisons (trace (snd (processVlessHeader pf env m s)))
                  = comparisons (trace s) @ calls
          \<and> list_all (\<lambda>ab. length (fst ab) = 16 \<and> length (snd ab) = 16
                             \<and> length (fst ab) = length (snd ab)
                             \<and> compareArrays (fst ab) (snd ab) = (fst ab = snd ab)) calls
          \<and> calls = (if 17 \<le> length m \<and> m ! 0 = 0
                      then [(take 16 (drop 1 m), uuidToBytes (UUID env))] else []))"
proof -
  have "uuidToBytes uuid ! i = 0"
    if "i < 16" "parseInt16 (substring (filter (\<lambda>c. c \<noteq> 45) uuid) (i * 2) (i * 2 + 2)) = None"
    for i
    using that by (simp add: uuidToBytes_nth ToUint8_def)
  moreover have "list_all (\<lambda>ab. length (fst ab) = 16 \<and> length (snd ab) = 16
                             \<and> length (fst ab) = length (snd ab)
                             \<and> compareArrays (fst ab) (snd ab) = (fst ab = snd ab))
      (if 17 \<le> length m \<and> m ! 0 = 0
       then [(take 16 (drop 1 m), uuidToBytes (UUID env))] else [])"
    by (auto simp: length_uuidToBytes compareArrays_eq)
  ultimately show ?thesis
    using processVlessHeader_comparisons [of pf env m s]
    by (simp add: length_uuidToBytes)
qed

lemma odd_uuid_bytes: "uuidToBytes odd_uuid = [0, 1, 0, 240, 0, 0, 0, 0, 0, 0, 0, 0, 0, 0, 0, 0]"
  by (simp add: uuidToBytes_map odd_uuid_def js_def substring_def parseInt16_def isWhiteSpace_def
      hexDigitValue_def ToUint8_def upt_rec)

theorem uuid_bytes_always_sixteen_witness:
  "length (uuidToBytes odd_uuid) = 16
   \<and> (2::nat) < 16
   \<and> parseInt16 (substring (filter (\<lambda>c. c \<noteq> 45) odd_uuid) (2 * 2) (2 * 2 + 2)) = None
   \<and> uuidToBytes odd_uuid ! 2 = 0
   \<and> uuidToBytes odd_uuid = [0, 1, 0, 240, 0, 0, 0, 0, 0, 0, 0, 0, 0, 0, 0, 0]
   \<and> comparisons (trace (snd (processVlessHeader demo_platform demo_env ipv4_header fresh)))
        = [(demo_secret, demo_secret)]"
proof -
  note main = uuid_bytes_always_sixteen [of odd_uuid demo_platform demo_env ipv4_header fresh]
  have a: "parseInt16 (substring (filter (\<lambda>c. c \<noteq> 45) odd_uuid) (2 * 2) (2 * 2 + 2)) = None"
    by (simp add: odd_uuid_def js_def substring_def parseInt16_def isWhiteSpace_def hexDigitValue_def)
  have b: "17 \<le> length ipv4_header \<and> ipv4_header ! 0 = 0"
    "take 16 (drop 1 ipv4_header) = demo_secret" "uuidToBytes (UUID demo_env) = demo_secret"
    "comparisons (trace fresh) = []"
    by (simp_all add: ipv4_header_def demo_secret_def demo_env_def demo_uuid_bytes fresh_def
        comparisons_def)
  have c: "length (uuidToBytes odd_uuid) = 16"
    using main by simp
  have d: "uuidToBytes odd_uuid ! 2 = 0"
    using main a by simp
  have e: "comparisons (trace (snd (processVlessHeader demo_platform demo_env ipv4_header fresh)))
        = [(demo_secret, demo_secret)]"
    using main b by auto
  show ?thesis
    using a c d e odd_uuid_bytes by simp
qed

section \<open>One frame on the server socket\<close>

lemma processVlessHeader_fields:
  "pipes (snd (processVlessHeader pf env m s)) = pipes s"
  "ws_closed (snd (processVlessHeader pf env m s)) = ws_closed s"
  "attempts (snd (processVlessHeader pf env m s))
     = (case fst (readHeader env m s) of Inl e \<Rightarrow> attempts s | Inr h \<Rightarrow> attempts s + 1)"
  by (simp_all add: processVlessHeader_eq Let_def readHeader_state emit_def
      split: sum.splits fetch_outcome.splits option.splits)

lemma processVlessHeader_quiet:
  "client_frames (trace (snd (processVlessHeader pf env m s))) = client_frames (trace s)"
  "closes (trace (snd (processVlessHeader pf env m s))) = closes (trace s)"
  "header_parses (trace (snd (processVlessHeader pf env m s))) = header_parses (trace s) @ [m]"
  by (simp_all add: processVlessHeader_eq Let_def readHeader_state emit_def
      client_frames_def closes_def header_parses_def
      split: sum.splits fetch_outcome.splits option.splits)

lemma processVlessHeader_outbound:
  "outbound k (trace (snd (processVlessHeader pf env m s)))
     = outbound k (trace s) @
         (case fst (processVlessHeader pf env m s) of
            Inl e \<Rightarrow> []
          | Inr r \<Rightarrow> if k = attempts s then [drop (length (rawVlessHeader r)) m] else [])"
proof (cases "fst (readHeader env m s)")
  case (Inl e)
  then show ?thesis
    by (simp add: processVlessHeader_eq readHeader_state emit_def outbound_def)
next
  case (Inr h)
  then have "hdr_offset h \<le> length m"
    using readHeader_offset_le [of env m s h "snd (readHeader env m s)"]
    by (metis prod.collapse)
  then show ?thesis
    using Inr
    by (simp add: processVlessHeader_eq Let_def readHeader_state emit_def outbound_def
        split: fetch_outcome.splits option.splits)
qed

lemma pipe_listeners_fields:
  "pipes (foldl (\<lambda>s sock. pipe_listener sock m s) s socks) = pipes s"
  "ws_closed (foldl (\<lambda>s sock. pipe_listener sock m s) s socks) = ws_closed s"
  "attempts (foldl (\<lambda>s sock. pipe_listener sock m s) s socks) = attempts s"
  "trace (foldl (\<lambda>s sock. pipe_listener sock m s) s socks)
     = trace s @ map (\<lambda>sock. RemoteWrite (sock_id sock) m) socks"
  by (induction socks arbitrary: s) (simp_all add: pipe_listener_def emit_def)

lemma message_listener_eq:
  "message_listener pf env m s =
     (case fst (processVlessHeader pf env m s) of
        Inr r \<Rightarrow> (snd (processVlessHeader pf env m s))
                   \<lparr>pipes := pipes s @ [remoteSocket r]\<rparr>
      | Inl e \<Rightarrow> server_close 1011 (error_message pf e) (snd (processVlessHeader pf env m s)))"
proof (cases "processVlessHeader pf env m s")
  case (Pair a b)
  then have "pipes b = pipes s"
    using processVlessHeader_fields(1) [of pf env m s] by simp
  then show ?thesis
    using Pair by (simp add: message_listener_def split: sum.splits)
qed

lemma on_message_open:
  "on_message pf env m s =
     (let s1 = message_listener pf env m s
      in s1\<lparr>trace := trace s1 @ map (\<lambda>sock. RemoteWrite (sock_id sock) m) (pipes s)\<rparr>)"
proof -
  have "foldl (\<lambda>s sock. pipe_listener sock m s) s1 socks
      = s1\<lparr>trace := trace s1 @ map (\<lambda>sock. RemoteWrite (sock_id sock) m) socks\<rparr>" for s1 socks
    by (induction socks arbitrary: s1) (simp_all add: pipe_listener_def emit_def)
  then show ?thesis
    by (simp add: on_message_def Let_def)
qed

lemma writes_quiet:
  "client_frames (map (\<lambda>sock. RemoteWrite (sock_id sock) m) socks) = []"
  "closes (map (\<lambda>sock. RemoteWrite (sock_id sock) m) socks) = []"
  "header_parses (map (\<lambda>sock. RemoteWrite (sock_id sock) m) socks) = []"
  "connects (map (\<lambda>sock. RemoteWrite (sock_id sock) m) socks) = []"
  by (induction socks) (simp_all add: client_frames_def closes_def header_parses_def connects_def)

lemma on_message_client_frames:
  "client_frames (trace (on_message pf env m s)) = client_frames (trace s)"
  by (simp add: on_message_open message_listener_eq Let_def server_close_def emit_def
      client_frames_append writes_quiet processVlessHeader_quiet
      split: sum.splits)
    (simp add: client_frames_def)

lemma on_message_header_parses:
  "header_parses (trace (on_message pf env m s)) = header_parses (trace s) @ [m]"
  by (simp add: on_message_open message_listener_eq Let_def server_close_def emit_def
      header_parses_append writes_quiet processVlessHeader_quiet
      split: sum.splits)
    (simp add: header_parses_def)

lemma on_message_error_closes:
  assumes "fst (processVlessHeader pf env m s) = Inl e"
  shows "closes (trace (on_message pf env m s)) = closes (trace s) @ [(1011, error_message pf e)]"
    and "ws_closed (on_message pf env m s)"
  using assms
  by (simp_all add: on_message_open message_listener_eq Let_def server_close_def emit_def
      closes_append writes_quiet processVlessHeader_quiet)
    (simp add: closes_def)

section \<open>A frame with a wrong secret\<close>

lemma on_message_connects:
  "connects (trace (on_message pf env m s)) = connects (trace (snd (processVlessHeader pf env m s)))"
  by (simp add: on_message_open message_listener_eq Let_def server_close_def emit_def
      connects_append writes_quiet split: sum.splits)
    (simp add: connects_def)

text \<open>
  C3, as the code has it. Let the frame hold a secret field (17 bytes or more) that
  differs from the configured secret in some byte \<open>i\<close>. Then \<^verbatim>\<open>processVlessHeader\<close> throws;
  when the version byte is 0 the error is the invalid-secret error (otherwise it is the
  unsupported-version error, thrown first). In both cases \<^verbatim>\<open>connect\<close> is not called: not
  by this call, and not by anything else that the dispatch of this frame runs; with
  version byte 0 the dispatch ends in \<^verbatim>\<open>server.close(1011, 'Invalid UUID')\<close>.
\<close>

theorem secret_mismatch_rejected:
  assumes "17 \<le> length m" and "i < 16" and "m ! (1 + i) \<noteq> uuidToBytes (UUID env) ! i"
  shows "(m ! 0 = 0 \<longrightarrow> fst (processVlessHeader pf env m s) = Inl InvalidUUID)
       \<and> (m ! 0 \<noteq> 0 \<longrightarrow> fst (processVlessHeader pf env m s) = Inl (UnsupportedVersion (m ! 0)))
       \<and> connects (trace (snd (processVlessHeader pf env m s))) = connects (trace s)
       \<and> connects (trace (on_message pf env m s)) = connects (trace s)
       \<and> (m ! 0 = 0 \<longrightarrow>
            closes (trace (on_message pf env m s)) = closes (trace s) @ [(1011, js ''Invalid UUID'')])"
proof -
  have ne: "m \<noteq> []"
    using assms(1) by auto
  have diff: "take 16 (drop 1 m) \<noteq> uuidToBytes (UUID env)"
    using assms by (rule secret_differs)
  have "\<exists>e t. processVlessHeader pf env m s = (Inl e, s\<lparr>trace := trace s @ t\<rparr>) \<and> connects t = []
            \<and> (m ! 0 = 0 \<longrightarrow> e = InvalidUUID) \<and> (m ! 0 \<noteq> 0 \<longrightarrow> e = UnsupportedVersion (m ! 0))"
  proof (cases "m ! 0 = 0")
    case True
    let ?t = "[HeaderParse m, CompareArrays (take 16 (drop 1 m)) (uuidToBytes (UUID env))]"
    have "processVlessHeader pf env m s = (Inl InvalidUUID, s\<lparr>trace := trace s @ ?t\<rparr>)"
      using assms(1) True diff
      by (simp add: processVlessHeader_failed readHeader_bad_secret emit_def)
    moreover have "connects ?t = []"
      by (simp add: connects_def)
    ultimately show ?thesis
      using True by blast
  next
    case False
    have "processVlessHeader pf env m s
        = (Inl (UnsupportedVersion (m ! 0)), s\<lparr>trace := trace s @ [HeaderParse m]\<rparr>)"
      using ne False by (simp add: processVlessHeader_failed readHeader_bad_version emit_def)
    moreover have "connects [HeaderParse m] = []"
      by (simp add: connects_def)
    ultimately show ?thesis
      using False by blast
  qed
  then obtain e t where one: "processVlessHeader pf env m s = (Inl e, s\<lparr>trace := trace s @ t\<rparr>)"
    and t: "connects t = []"
    and e: "m ! 0 = 0 \<longrightarrow> e = InvalidUUID" "m ! 0 \<noteq> 0 \<longrightarrow> e = UnsupportedVersion (m ! 0)"
    by blast
  have call: "connects (trace (snd (processVlessHeader pf env m s))) = connects (trace s)"
    using one t by (simp add: connects_append)
  have closed: "closes (trace (on_message pf env m s)) = closes (trace s) @ [(1011, js ''Invalid UUID'')]"
    if "m ! 0 = 0"
    using that one e on_message_error_closes(1) [of pf env m s e] by simp
  show ?thesis
    using one e call closed by (simp add: on_message_connects)
qed

theorem secret_mismatch_rejected_witness:
  "17 \<le> length wrong_secret_frame \<and> (4::nat) < 16
   \<and> wrong_secret_frame ! (1 + 4) \<noteq> uuidToBytes (UUID demo_env) ! 4
   \<and> wrong_secret_frame ! 0 = 0
   \<and> fst (processVlessHeader demo_platform demo_env wrong_secret_frame fresh) = Inl InvalidUUID
   \<and> connects (trace (snd (processVlessHeader demo_platform demo_env wrong_secret_frame fresh))) = []
   \<and> connects (trace (on_message demo_platform demo_env wrong_secret_frame fresh)) = []
   \<and> closes (trace (on_message demo_platform demo_env wrong_secret_frame fresh))
        = [(1011, js ''Invalid UUID'')]"
proof -
  have a: "17 \<le> length wrong_secret_frame" and b: "(4::nat) < 16"
    and c: "wrong_secret_frame ! (1 + 4) \<noteq> uuidToBytes (UUID demo_env) ! 4"
    and d: "wrong_secret_frame ! 0 = 0"
    by (simp_all add: wrong_secret_frame_def ipv4_header_def demo_env_def demo_uuid_bytes demo_secret_def)
  have e: "connects (trace fresh) = []" "closes (trace fresh) = []"
    by (simp_all add: fresh_def connects_def closes_def)
  show ?thesis
    using secret_mismatch_rejected [OF a b c, of demo_platform fresh] a b c d e
    by simp
qed

text \<open>
  The claim as it is worded fails where the version byte is not 0: the frame below
  holds a secret field that differs from the configured secret, and the error is the
  unsupported-version error.
\<close>

theorem secret_mismatch_counterexample:
  "17 \<le> length (wrong_secret_frame[0 := 1])
   \<and> (wrong_secret_frame[0 := 1]) ! (1 + 4) \<noteq> uuidToBytes (UUID demo_env) ! 4
   \<and> fst (processVlessHeader demo_platform demo_env (wrong_secret_frame[0 := 1]) fresh)
        = Inl (UnsupportedVersion 1)
   \<and> fst (processVlessHeader demo_platform demo_env (wrong_secret_frame[0 := 1]) fresh)
        \<noteq> Inl InvalidUUID"
proof -
  have a: "wrong_secret_frame[0 := 1] \<noteq> []" and b: "(wrong_secret_frame[0 := 1]) ! 0 \<noteq> 0"
    and c: "(wrong_secret_frame[0 := 1]) ! 0 = 1"
    and d: "17 \<le> length (wrong_secret_frame[0 := 1])"
    and e: "(wrong_secret_frame[0 := 1]) ! (1 + 4) \<noteq> uuidToBytes (UUID demo_env) ! 4"
    by (simp_all add: wrong_secret_frame_def ipv4_header_def demo_env_def demo_uuid_bytes demo_secret_def)
  have "processVlessHeader demo_platform demo_env (wrong_secret_frame[0 := 1]) fresh
      = (Inl (UnsupportedVersion ((wrong_secret_frame[0 := 1]) ! 0)),
         emit (HeaderParse (wrong_secret_frame[0 := 1])) fresh)"
    using a b by (simp add: processVlessHeader_failed readHeader_bad_version)
  then show ?thesis
    using c d e by simp
qed

section \<open>The upgrade gate and the close on error\<close>

lemma of_char_less_256: "(of_char c :: nat) < 256"
proof -
  have "(of_char c :: nat) = of_char (char_of (of_char c :: nat))"
    by simp
  also have "\<dots> = (of_char c :: nat) mod 256"
    by (simp only: of_char_of)
  finally show ?thesis
    by (metis mod_less_divisor zero_less_numeral)
qed

lemma char_eq_iff_code: "c = d \<longleftrightarrow> (of_char c :: nat) = of_char d"
  by (metis char_of_char)

lemma lower_char_eq:
  assumes "97 \<le> (of_char d :: nat)" and "(of_char d :: nat) \<le> 122"
  shows "(let n = (of_char c :: nat)
          in if (65 \<le> n \<and> n \<le> 90) \<or> (192 \<le> n \<and> n \<le> 222 \<and> n \<noteq> 215)
             then char_of (n + 32) else c) = d
         \<longleftrightarrow> c = d \<or> (of_char c :: nat) + 32 = of_char d"
proof -
  have lt: "(of_char c :: nat) < 256"
    by (rule of_char_less_256)
  have up: "(of_char (char_of ((of_char c :: nat) + 32) :: char) :: nat) = of_char c + 32"
    if "(of_char c :: nat) \<le> 222"
    using that by (simp add: of_char_of)
  show ?thesis
    using assms lt up unfolding Let_def char_eq_iff_code [of _ d]
    by (auto split: if_splits)
qed

lemma toLowerCase_websocket: "toLowerCase v = ''websocket'' \<longleftrightarrow> spec_is_websocket v"
proof -
  let ?low = "\<lambda>c. let n = (of_char c :: nat)
               in if (65 \<le> n \<and> n \<le> 90) \<or> (192 \<le> n \<and> n \<le> 222 \<and> n \<noteq> 215)
                  then char_of (n + 32) else c"
  have letters: "\<forall>d \<in> set ''websocket''. 97 \<le> (of_char d :: nat) \<and> (of_char d :: nat) \<le> 122"
    by simp
  have "toLowerCase v = ''websocket'' \<longleftrightarrow> list_all2 (\<lambda>c d. ?low c = d) v ''websocket''"
    unfolding toLowerCase_def by (simp only: list_all2_map1 list.rel_eq [symmetric])
  also have "\<dots> \<longleftrightarrow> list_all2 (\<lambda>c d. c = d \<or> (of_char c :: nat) + 32 = of_char d) v ''websocket''"
  proof (rule iffI)
    assume "list_all2 (\<lambda>c d. ?low c = d) v ''websocket''"
    then show "list_all2 (\<lambda>c d. c = d \<or> (of_char c :: nat) + 32 = of_char d) v ''websocket''"
      by (rule list.rel_mono_strong) (use letters lower_char_eq in blast)
  next
    assume "list_all2 (\<lambda>c d. c = d \<or> (of_char c :: nat) + 32 = of_char d) v ''websocket''"
    then show "list_all2 (\<lambda>c d. ?low c = d) v ''websocket''"
      by (rule list.rel_mono_strong) (use letters lower_char_eq in blast)
  qed
  finally show ?thesis
    by (simp only: spec_is_websocket_def)
qed

lemma handleVless_eq:
  "handleVless request =
     (if \<exists>v. upgrade request = Some v \<and> spec_is_websocket v
      then (\<lparr>status = 101, body = None, webSocket = True\<rparr>, Some fresh)
      else (\<lparr>status = 426, body = Some ''Expected a WebSocket Upgrade request'',
              webSocket = False\<rparr>, None))"
proof (cases "upgrade request")
  case None
  then show ?thesis by (simp add: handleVless_def)
next
  case (Some v)
  have "\<not> spec_is_websocket []"
    by (simp add: spec_is_websocket_def)
  then show ?thesis
    using Some toLowerCase_websocket [of v]
    by (auto simp: handleVless_def fresh_def)
qed

lemma wrong_secret_frame_result:
  "fst (processVlessHeader demo_platform demo_env wrong_secret_frame fresh) = Inl InvalidUUID"
proof -
  have "17 \<le> length wrong_secret_frame" "wrong_secret_frame ! 0 = 0"
    "take 16 (drop 1 wrong_secret_frame) \<noteq> uuidToBytes (UUID demo_env)"
    by (simp_all add: wrong_secret_frame_def ipv4_header_def demo_env_def demo_uuid_bytes
        demo_secret_def)
  then show ?thesis
    by (simp add: processVlessHeader_failed readHeader_bad_secret)
qed

text \<open>
  C9. A request whose \<^verbatim>\<open>Upgrade\<close> header is missing, or does not spell \<^verbatim>\<open>websocket\<close> in
  letters of either case, is answered with status 426 and nothing else happens: no
  socket pair is made. A request that carries such a header is answered with status 101
  and the client end of a pair whose server end is accepted and untouched. After that,
  whenever \<^verbatim>\<open>processVlessHeader\<close> throws on a frame of a socket that is still open (a
  parsing error, the secret check, or what \<^verbatim>\<open>connect\<close> throws), the server end is closed
  with code 1011, which is not 1000, and with the message of the error as the reason.
\<close>

theorem upgrade_gate_and_error_close:
  "(\<not> (\<exists>v. upgrade request = Some v \<and> spec_is_websocket v) \<longrightarrow>
      status (fst (handleVless request)) = 426 \<and> snd (handleVless request) = None)
   \<and> ((\<exists>v. upgrade request = Some v \<and> spec_is_websocket v) \<longrightarrow>
      status (fst (handleVless request)) = 101 \<and> webSocket (fst (handleVless request))
      \<and> snd (handleVless request) = Some fresh \<and> trace fresh = [])
   \<and> (\<not> ws_closed s \<and> fst (processVlessHeader pf env m s) = Inl e \<longrightarrow>
      closes (trace (on_message pf env m s)) = closes (trace s) @ [(1011, error_message pf e)]
      \<and> ws_closed (on_message pf env m s) \<and> (1011 :: nat) \<noteq> 1000)"
  using on_message_error_closes [of pf env m s e]
  by (simp add: handleVless_eq fresh_def)

theorem upgrade_gate_and_error_close_witness:
  "upgrade \<lparr>upgrade = Some ''h2c''\<rparr> = Some ''h2c'' \<and> \<not> spec_is_websocket ''h2c''
   \<and> status (fst (handleVless \<lparr>upgrade = Some ''h2c''\<rparr>)) = 426
   \<and> snd (handleVless \<lparr>upgrade = Some ''h2c''\<rparr>) = None
   \<and> status (fst (handleVless \<lparr>upgrade = None\<rparr>)) = 426
   \<and> spec_is_websocket ''WebSocket''
   \<and> status (fst (handleVless \<lparr>upgrade = Some ''WebSocket''\<rparr>)) = 101
   \<and> snd (handleVless \<lparr>upgrade = Some ''WebSocket''\<rparr>) = Some fresh
   \<and> \<not> ws_closed fresh
   \<and> fst (processVlessHeader demo_platform demo_env wrong_secret_frame fresh) = Inl InvalidUUID
   \<and> closes (trace (on_message demo_platform demo_env wrong_secret_frame fresh))
        = [(1011, js ''Invalid UUID'')]
   \<and> ws_closed (on_message demo_platform demo_env wrong_secret_frame fresh)"
proof -
  have a: "\<not> spec_is_websocket ''h2c''" "spec_is_websocket ''WebSocket''"
    by (simp_all add: spec_is_websocket_def)
  have b: "\<not> (\<exists>v. upgrade \<lparr>upgrade = Some ''h2c''\<rparr> = Some v \<and> spec_is_websocket v)"
    "\<not> (\<exists>v. upgrade \<lparr>upgrade = None\<rparr> = Some v \<and> spec_is_websocket v)"
    "\<exists>v. upgrade \<lparr>upgrade = Some ''WebSocket''\<rparr> = Some v \<and> spec_is_websocket v"
    using a by simp_all
  have c: "\<not> ws_closed fresh" "closes (trace fresh) = []"
    by (simp_all add: fresh_def closes_def)
  have d: "fst (processVlessHeader demo_platform demo_env wrong_secret_frame fresh) = Inl InvalidUUID"
    by (rule wrong_secret_frame_result)
  note g1 = upgrade_gate_and_error_close [of "\<lparr>upgrade = Some ''h2c''\<rparr>" fresh demo_platform
      demo_env wrong_secret_frame InvalidUUID]
  note g2 = upgrade_gate_and_error_close [of "\<lparr>upgrade = None\<rparr>" fresh demo_platform
      demo_env wrong_secret_frame InvalidUUID]
  note g3 = upgrade_gate_and_error_close [of "\<lparr>upgrade = Some ''WebSocket''\<rparr>" fresh demo_platform
      demo_env wrong_secret_frame InvalidUUID]
  have e: "status (fst (handleVless \<lparr>upgrade = Some ''h2c''\<rparr>)) = 426"
    "snd (handleVless \<lparr>upgrade = Some ''h2c''\<rparr>) = None"
    using g1 b(1) by blast+
  have f: "status (fst (handleVless \<lparr>upgrade = None\<rparr>)) = 426"
    using g2 b(2) by blast
  have g: "status (fst (handleVless \<lparr>upgrade = Some ''WebSocket''\<rparr>)) = 101"
    "snd (handleVless \<lparr>upgrade = Some ''WebSocket''\<rparr>) = Some fresh"
    using g3 b(3) by blast+
  have h: "closes (trace (on_message demo_platform demo_env wrong_secret_frame fresh))
        = [(1011, js ''Invalid UUID'')]"
    "ws_closed (on_message demo_platform demo_env wrong_secret_frame fresh)"
    using g1 c d by simp_all
  show ?thesis
    using a c(1) d e f g h by simp
qed

section \<open>The relay\<close>

lemma processVlessHeader_Inr:
  assumes "fst (processVlessHeader pf env m s) = Inr r"
  shows "sock_id (remoteSocket r) = attempts s"
    and "attempts (snd (processVlessHeader pf env m s)) = attempts s + 1"
    and "length (rawVlessHeader r) \<le> length m"
proof -
  obtain h where h: "fst (readHeader env m s) = Inr h"
    using assms by (cases "fst (readHeader env m s)") (simp_all add: processVlessHeader_eq)
  show "sock_id (remoteSocket r) = attempts s"
    using processVlessHeader_result(4) [OF h assms] .
  show "attempts (snd (processVlessHeader pf env m s)) = attempts s + 1"
    using h by (simp add: processVlessHeader_fields)
  show "length (rawVlessHeader r) \<le> length m"
    using processVlessHeader_result(3) [OF h assms] by simp
qed

lemma message_listener_fields:
  "attempts s \<le> attempts (message_listener pf env m s)"
  "pipes (message_listener pf env m s) =
     (case fst (processVlessHeader pf env m s) of
        Inl e \<Rightarrow> pipes s | Inr r \<Rightarrow> pipes s @ [remoteSocket r])"
  by (simp_all add: message_listener_eq server_close_def emit_def processVlessHeader_fields
      split: sum.splits)

lemma message_listener_attempts:
  "fst (processVlessHeader pf env m s) = Inr r \<Longrightarrow>
     attempts (message_listener pf env m s) = attempts s + 1"
  by (simp add: message_listener_eq processVlessHeader_Inr(2))

lemma on_message_wf:
  assumes "wf_session s"
  shows "wf_session (on_message pf env m s)"
proof -
  let ?s1 = "message_listener pf env m s"
  have old: "list_all (\<lambda>sock. sock_id sock < attempts s) (pipes s)"
    and dist: "distinct (map sock_id (pipes s))"
    using assms by (simp_all add: wf_session_def)
  have "wf_session ?s1"
  proof (cases "fst (processVlessHeader pf env m s)")
    case (Inl e)
    then have "pipes ?s1 = pipes s"
      by (simp add: message_listener_fields)
    moreover have "list_all (\<lambda>sock. sock_id sock < attempts ?s1) (pipes s)"
      using old message_listener_fields(1) [of s pf env m]
      by (auto simp: list_all_iff)
    ultimately show ?thesis
      using dist by (simp add: wf_session_def)
  next
    case (Inr r)
    then have p: "pipes ?s1 = pipes s @ [remoteSocket r]"
      and a: "attempts ?s1 = attempts s + 1"
      and i: "sock_id (remoteSocket r) = attempts s"
      by (simp_all add: message_listener_fields message_listener_attempts processVlessHeader_Inr(1))
    have "sock_id (remoteSocket r) \<notin> sock_id ` set (pipes s)"
      using old i by (auto simp: list_all_iff)
    then show ?thesis
      using old dist p a i by (auto simp: wf_session_def list_all_iff)
  qed
  then show ?thesis
    by (simp add: on_message_open Let_def wf_session_def)
qed

lemma run_session_wf: "wf_session s \<Longrightarrow> wf_session (run_session pf env frames s)"
  by (induction frames arbitrary: s) (simp_all add: run_session_def on_message_wf)

lemma wf_fresh: "wf_session fresh"
  by (simp add: wf_session_def fresh_def)

lemma run_session_client_frames:
  "client_frames (trace (run_session pf env frames s)) = client_frames (trace s)"
  by (induction frames arbitrary: s) (simp_all add: run_session_def on_message_client_frames)

lemma outbound_writes:
  assumes "distinct (map sock_id socks)" and "sock \<in> set socks"
  shows "outbound (sock_id sock) (map (\<lambda>x. RemoteWrite (sock_id x) m) socks) = [m]"
  using assms
proof (induction socks)
  case Nil
  then show ?case by simp
next
  case (Cons x socks)
  have rest: "outbound k (map (\<lambda>x. RemoteWrite (sock_id x) m) socks) = []"
    if "k \<notin> sock_id ` set socks" for k
    using that by (induction socks) (auto simp: outbound_def)
  show ?case
  proof (cases "sock = x")
    case True
    then show ?thesis
      using Cons.prems rest [of "sock_id x"] by (simp add: outbound_def)
  next
    case False
    then have in_rest: "sock \<in> set socks"
      using Cons.prems by simp
    then have "sock_id sock \<in> sock_id ` set socks"
      by (rule imageI)
    then have "sock_id sock \<noteq> sock_id x"
      using Cons.prems(1) by auto
    with in_rest have "sock \<in> set socks" "sock_id sock \<noteq> sock_id x"
      by simp_all
    then show ?thesis
      using Cons by (simp add: outbound_def)
  qed
qed

lemma message_listener_outbound:
  assumes "k \<noteq> attempts s"
  shows "outbound k (trace (message_listener pf env m s)) = outbound k (trace s)"
  using assms
  by (simp add: message_listener_eq server_close_def emit_def outbound_append
      processVlessHeader_outbound split: sum.splits)
    (simp add: outbound_def)

lemma on_message_forwards:
  assumes "wf_session s" and "\<not> ws_closed s" and "sock \<in> set (pipes s)"
  shows "outbound (sock_id sock) (trace (on_message pf env m s))
           = outbound (sock_id sock) (trace s) @ [m]"
proof -
  have "sock_id sock < attempts s"
    using assms(1,3) by (auto simp: wf_session_def list_all_iff)
  then have "outbound (sock_id sock) (trace (message_listener pf env m s))
      = outbound (sock_id sock) (trace s)"
    by (intro message_listener_outbound) simp
  moreover have "outbound (sock_id sock) (map (\<lambda>x. RemoteWrite (sock_id x) m) (pipes s)) = [m]"
    using assms(1,3) by (intro outbound_writes) (simp_all add: wf_session_def)
  ultimately show ?thesis
    by (simp add: on_message_open Let_def outbound_append)
qed

text \<open>
  C2, as the code has it. From the accepted socket on, whatever frames arrive and
  whatever the readable sides of the outbound sockets hold, no frame is sent to the
  client: the relay has no direction from the outbound connection to the client. The
  other direction is there: in a session reached from the accepted socket and still
  open, a frame is written, once and after what was written before, to every outbound
  socket that a listener holds.
\<close>

theorem relay_runs_one_way:
  "client_frames (trace (run_session pf env frames fresh)) = []
   \<and> (s = run_session pf env frames fresh \<and> \<not> ws_closed s \<and> sock \<in> set (pipes s) \<longrightarrow>
        outbound (sock_id sock) (trace (on_message pf env m s))
          = outbound (sock_id sock) (trace s) @ [m]
        \<and> client_frames (trace (on_message pf env m s)) = [])"
proof -
  have a: "client_frames (trace (run_session pf env frames fresh)) = []"
    by (simp add: run_session_client_frames) (simp add: fresh_def client_frames_def)
  have "wf_session (run_session pf env frames fresh)"
    by (intro run_session_wf wf_fresh)
  then show ?thesis
    using a by (auto simp: on_message_forwards on_message_client_frames)
qed

section \<open>A session on the sample frames\<close>

lemma ipv4_header_length: "length ipv4_header = 26"
  by (simp add: ipv4_header_def demo_secret_def)

lemma ipv4_frame_processed:
  "processVlessHeader demo_platform demo_env (ipv4_header @ p) s =
     (Inr \<lparr>remoteSocket = \<lparr>sock_id = attempts s, readable = [[65]]\<rparr>, host = js ''1.2.3.4'',
            port = 443, rawVlessHeader = ipv4_header\<rparr>,
      s\<lparr>trace := trace s @ [HeaderParse (ipv4_header @ p), CompareArrays demo_secret demo_secret,
                             Connect (js ''1.2.3.4'') 443, RemoteWrite (attempts s) p],
        attempts := attempts s + 1\<rparr>)"
proof -
  have h: "fst (readHeader demo_env (ipv4_header @ p) s)
      = Inr \<lparr>hdr_host = js ''1.2.3.4'', hdr_port = 443, hdr_offset = 26\<rparr>"
    by (rule ipv4_header_read) (simp add: demo_env_def)
  have long: "17 \<le> length (ipv4_header @ p) \<and> (ipv4_header @ p) ! 0 = 0"
    and sec: "take 16 (drop (Suc 0) (ipv4_header @ p)) = demo_secret"
    by (simp_all add: ipv4_header_def demo_secret_def)
  have cut: "take 26 (ipv4_header @ p) = ipv4_header" "drop 26 (ipv4_header @ p) = p"
    by (simp_all add: ipv4_header_length)
  have cfg: "PROXY_HOST demo_env = None" "uuidToBytes (UUID demo_env) = demo_secret"
    "fetch_connect demo_platform k hostname q = Resolved [[65]]"
    "request_error demo_platform hostname q = None" for k hostname q
    by (simp_all add: demo_env_def demo_uuid_bytes demo_platform_def always_resolved_def
        request_accepted_def)
  show ?thesis
    unfolding processVlessHeader_eq h readHeader_state
    using long by (simp add: Let_def cut cfg sec emit_def del: take_append drop_append)
qed

lemma ipv4_frame_dispatched:
  "on_message demo_platform demo_env (ipv4_header @ p) s =
     s\<lparr>trace := trace s @ [HeaderParse (ipv4_header @ p), CompareArrays demo_secret demo_secret,
                            Connect (js ''1.2.3.4'') 443, RemoteWrite (attempts s) p]
                  @ map (\<lambda>sock. RemoteWrite (sock_id sock) (ipv4_header @ p)) (pipes s),
       attempts := attempts s + 1,
       pipes := pipes s @ [\<lparr>sock_id = attempts s, readable = [[65]]\<rparr>]\<rparr>"
  by (simp add: on_message_open message_listener_def ipv4_frame_processed Let_def)

lemma bad_version_dispatched:
  assumes "m \<noteq> []" and "m ! 0 \<noteq> 0"
  shows "on_message pf env m s =
     s\<lparr>trace := trace s @ [HeaderParse m,
                            WsClose 1011 (error_message pf (UnsupportedVersion (m ! 0)))]
                  @ map (\<lambda>sock. RemoteWrite (sock_id sock) m) (pipes s),
       ws_closed := True\<rparr>"
proof -
  have "processVlessHeader pf env m s = (Inl (UnsupportedVersion (m ! 0)), emit (HeaderParse m) s)"
    using assms by (simp add: processVlessHeader_failed readHeader_bad_version)
  then show ?thesis
    by (simp add: on_message_open message_listener_def Let_def server_close_def emit_def)
qed

lemma first_frame_session:
  "run_session demo_platform demo_env [ipv4_header @ p] fresh =
     \<lparr>trace = [HeaderParse (ipv4_header @ p), CompareArrays demo_secret demo_secret,
               Connect (js ''1.2.3.4'') 443, RemoteWrite 0 p],
      attempts = 1, pipes = [\<lparr>sock_id = 0, readable = [[65]]\<rparr>], ws_closed = False\<rparr>"
  by (simp add: run_session_def ipv4_frame_dispatched) (simp add: fresh_def)

theorem relay_runs_one_way_witness:
  "run_session demo_platform demo_env [ipv4_header @ [80, 81]] fresh =
     \<lparr>trace = [HeaderParse (ipv4_header @ [80, 81]), CompareArrays demo_secret demo_secret,
               Connect (js ''1.2.3.4'') 443, RemoteWrite 0 [80, 81]],
      attempts = 1, pipes = [\<lparr>sock_id = 0, readable = [[65]]\<rparr>], ws_closed = False\<rparr>
   \<and> \<not> ws_closed (run_session demo_platform demo_env [ipv4_header @ [80, 81]] fresh)
   \<and> \<lparr>sock_id = 0, readable = [[65]]\<rparr>
        \<in> set (pipes (run_session demo_platform demo_env [ipv4_header @ [80, 81]] fresh))
   \<and> outbound 0 (trace (on_message demo_platform demo_env [7, 8, 9]
                           (run_session demo_platform demo_env [ipv4_header @ [80, 81]] fresh)))
        = [[80, 81], [7, 8, 9]]
   \<and> client_frames (trace (on_message demo_platform demo_env [7, 8, 9]
                           (run_session demo_platform demo_env [ipv4_header @ [80, 81]] fresh)))
        = []"
proof -
  let ?s = "run_session demo_platform demo_env [ipv4_header @ [80, 81]] fresh"
  note st = first_frame_session [of "[80, 81]"]
  have a: "\<not> ws_closed ?s" "\<lparr>sock_id = 0, readable = [[65]]\<rparr> \<in> set (pipes ?s)"
    "outbound 0 (trace ?s) = [[80, 81]]"
    unfolding st by (simp_all add: outbound_def)
  note main = relay_runs_one_way [of demo_platform demo_env "[ipv4_header @ [80, 81]]" ?s
      "\<lparr>sock_id = 0, readable = [[65]]\<rparr>" "[7, 8, 9]"]
  have b: "outbound 0 (trace (on_message demo_platform demo_env [7, 8, 9] ?s)) = [[80, 81], [7, 8, 9]]"
    "client_frames (trace (on_message demo_platform demo_env [7, 8, 9] ?s)) = []"
    using main a by simp_all
  show ?thesis
    using st a(1,2) b by (intro conjI)
qed

text \<open>
  The claim fails on the code: after the first frame the session holds an outbound
  socket whose readable side yields the chunk \<open>[65]\<close>, and neither then nor after a
  further frame has the client been sent it.
\<close>

theorem relay_runs_one_way_counterexample:
  "pipes (run_session demo_platform demo_env [ipv4_header @ [80, 81]] fresh)
      = [\<lparr>sock_id = 0, readable = [[65]]\<rparr>]
   \<and> client_frames (trace (run_session demo_platform demo_env [ipv4_header @ [80, 81]] fresh)) = []
   \<and> client_frames (trace (run_session demo_platform demo_env
                              [ipv4_header @ [80, 81], ipv4_header @ [7]] fresh)) \<noteq> [[65]]"
  by (simp add: run_session_client_frames first_frame_session)
    (simp add: fresh_def client_frames_def)

section \<open>Frames after the first\<close>

text \<open>
  The listener of \<^verbatim>\<open>handleVless\<close> stays registered for the whole session, so every
  frame that is dispatched is handed to \<^verbatim>\<open>processVlessHeader\<close>.
\<close>

lemma every_frame_enters_parser:
  "header_parses (trace (run_session pf env frames s)) = header_parses (trace s) @ frames"
  by (induction frames arbitrary: s) (simp_all add: run_session_def on_message_header_parses)

text \<open>
  So a frame that the platform delivers after a rejected one is parsed too, and opens a
  connection when it reads as a header.
\<close>

lemma frame_after_rejected_one_connects:
  "connects (trace (run_session demo_platform demo_env [wrong_secret_frame, ipv4_header] fresh))
     = [(js ''1.2.3.4'', 443)]"
proof -
  have "connects (trace (on_message demo_platform demo_env wrong_secret_frame fresh))
      = connects (trace (snd (processVlessHeader demo_platform demo_env wrong_secret_frame fresh)))"
    by (rule on_message_connects)
  also have "\<dots> = []"
  proof -
    have "17 \<le> length wrong_secret_frame" "wrong_secret_frame ! 0 = 0"
      "take 16 (drop 1 wrong_secret_frame) \<noteq> uuidToBytes (UUID demo_env)"
      by (simp_all add: wrong_secret_frame_def ipv4_header_def demo_env_def demo_uuid_bytes
          demo_secret_def)
    then have "processVlessHeader demo_platform demo_env wrong_secret_frame fresh
        = (Inl InvalidUUID,
           emit (CompareArrays (take 16 (drop 1 wrong_secret_frame)) (uuidToBytes (UUID demo_env)))
             (emit (HeaderParse wrong_secret_frame) fresh))"
      by (simp add: processVlessHeader_failed readHeader_bad_secret)
    then show ?thesis
      by (simp add: emit_def fresh_def connects_def)
  qed
  finally have first: "connects (trace (on_message demo_platform demo_env wrong_secret_frame fresh)) = []" .
  have "run_session demo_platform demo_env [wrong_secret_frame, ipv4_header] fresh
      = on_message demo_platform demo_env (ipv4_header @ [])
          (on_message demo_platform demo_env wrong_secret_frame fresh)"
    by (simp add: run_session_def)
  then show ?thesis
    unfolding ipv4_frame_dispatched using first
    by (simp add: connects_append writes_quiet) (simp add: connects_def)
qed

text \<open>
  C1 on the code. The session below receives the sample header with the payload
  \<open>[80, 81]\<close> and then the frame \<open>[1, 2, 3]\<close>. The outbound socket is written the payload
  and then the second frame, in that order; but \<^verbatim>\<open>processVlessHeader\<close> is entered a second
  time, on the second frame, throws the unsupported-version error, and the server socket
  is closed with code 1011. When the second frame happens to read as a header, a second
  outbound connection is opened instead.
\<close>

theorem second_frame_parsed_again:
  "outbound 0 (trace (run_session demo_platform demo_env [ipv4_header @ [80, 81], [1, 2, 3]] fresh))
      = [[80, 81], [1, 2, 3]]
   \<and> header_parses (trace (run_session demo_platform demo_env
                              [ipv4_header @ [80, 81], [1, 2, 3]] fresh))
      = [ipv4_header @ [80, 81], [1, 2, 3]]
   \<and> closes (trace (run_session demo_platform demo_env [ipv4_header @ [80, 81], [1, 2, 3]] fresh))
      = [(1011, js ''Unsupported VLESS version: 1'')]
   \<and> ws_closed (run_session demo_platform demo_env [ipv4_header @ [80, 81], [1, 2, 3]] fresh)
   \<and> header_parses (trace (run_session demo_platform demo_env
                              [ipv4_header @ [80, 81], ipv4_header @ [7]] fresh))
      = [ipv4_header @ [80, 81], ipv4_header @ [7]]
   \<and> connects (trace (run_session demo_platform demo_env
                         [ipv4_header @ [80, 81], ipv4_header @ [7]] fresh))
      = [(js ''1.2.3.4'', 443), (js ''1.2.3.4'', 443)]"
proof -
  let ?s1 = "run_session demo_platform demo_env [ipv4_header @ [80, 81]] fresh"
  note st = first_frame_session [of "[80, 81]"]
  have open1: "\<not> ws_closed ?s1"
    unfolding st by simp
  have two: "run_session demo_platform demo_env [ipv4_header @ [80, 81], m] fresh
      = on_message demo_platform demo_env m ?s1" for m
    by (simp add: run_session_def)
  have bad: "on_message demo_platform demo_env [1, 2, 3] ?s1 =
     ?s1\<lparr>trace := trace ?s1 @ [HeaderParse [1, 2, 3],
                 WsClose 1011 (error_message demo_platform (UnsupportedVersion ([1, 2, 3] ! 0)))]
               @ map (\<lambda>sock. RemoteWrite (sock_id sock) [1, 2, 3]) (pipes ?s1),
          ws_closed := True\<rparr>"
    by (intro bad_version_dispatched) simp_all
  have msg: "error_message demo_platform (UnsupportedVersion ([1, 2, 3] ! 0))
      = js ''Unsupported VLESS version: 1''"
    by (simp add: js_simps digitChar_def)
  have good: "on_message demo_platform demo_env (ipv4_header @ [7]) ?s1 =
     ?s1\<lparr>trace := trace ?s1 @ [HeaderParse (ipv4_header @ [7]), CompareArrays demo_secret demo_secret,
                                Connect (js ''1.2.3.4'') 443, RemoteWrite (attempts ?s1) [7]]
                      @ map (\<lambda>sock. RemoteWrite (sock_id sock) (ipv4_header @ [7])) (pipes ?s1),
           attempts := attempts ?s1 + 1,
           pipes := pipes ?s1 @ [\<lparr>sock_id = attempts ?s1, readable = [[65]]\<rparr>]\<rparr>"
    by (rule ipv4_frame_dispatched)
  have a: "outbound 0 (trace (on_message demo_platform demo_env [1, 2, 3] ?s1)) = [[80, 81], [1, 2, 3]]"
    "header_parses (trace (on_message demo_platform demo_env [1, 2, 3] ?s1))
       = [ipv4_header @ [80, 81], [1, 2, 3]]"
    "closes (trace (on_message demo_platform demo_env [1, 2, 3] ?s1))
       = [(1011, js ''Unsupported VLESS version: 1'')]"
    "ws_closed (on_message demo_platform demo_env [1, 2, 3] ?s1)"
    unfolding bad msg unfolding st
    by (simp_all add: outbound_def header_parses_def closes_def)
  have b: "header_parses (trace (on_message demo_platform demo_env (ipv4_header @ [7]) ?s1))
       = [ipv4_header @ [80, 81], ipv4_header @ [7]]"
    "connects (trace (on_message demo_platform demo_env (ipv4_header @ [7]) ?s1))
       = [(js ''1.2.3.4'', 443), (js ''1.2.3.4'', 443)]"
    unfolding good unfolding st
    by (simp_all add: header_parses_def connects_def)
  show ?thesis
    unfolding two using a b by (intro conjI)
qed

end
